(* ===== verification/Prelude.thy ===== *)
theory Prelude
  imports Main "HOL-Library.Word"
begin

text \<open>
  Shared vocabulary of the development: the control effects of Go (state, panics) as a small
  state-and-panic monad with a weakest-precondition calculus, the parts of \<^verbatim>\<open>strings\<close>,
  \<^verbatim>\<open>strconv\<close>, \<^verbatim>\<open>context\<close> and the 64-bit \<^verbatim>\<open>int\<close>
  that the sources use, and the lemma collections the component theories draw on.

  A Go \<^verbatim>\<open>string\<close> is a byte sequence, so it is a HOL \<open>string\<close> (a list of 8-bit
  characters) and \<open>length\<close> is Go's \<^verbatim>\<open>len\<close>.
\<close>

named_theorems go_simps \<open>unfolding rules of the state-and-panic monad\<close>
named_theorems wp_simps \<open>weakest preconditions of the monad's combinators\<close>
named_theorems always_intros \<open>rules for computations that never panic\<close>
named_theorems str_simps \<open>definitions of the Go string functions\<close>

section \<open>Go's control effects\<close>

text \<open>A computation returns a value or panics; the state reached so far is kept either way.\<close>

datatype 'a outcome = Ret 'a | Panic string

type_synonym ('w, 'a) go = "'w \<Rightarrow> 'a outcome \<times> 'w"

definition go_ret :: "'a \<Rightarrow> ('w, 'a) go" where
  [go_simps]: "go_ret x = (\<lambda>w. (Ret x, w))"

definition go_panic :: "string \<Rightarrow> ('w, 'a) go" where
  [go_simps]: "go_panic msg = (\<lambda>w. (Panic msg, w))"

definition go_bind :: "('w, 'a) go \<Rightarrow> ('a \<Rightarrow> ('w, 'b) go) \<Rightarrow> ('w, 'b) go" where
  [go_simps]: "go_bind m f = (\<lambda>w. case m w of (Ret x, w') \<Rightarrow> f x w' | (Panic e, w') \<Rightarrow> (Panic e, w'))"

text \<open>Sequencing where the first result is not used.\<close>

definition go_then :: "('w, 'a) go \<Rightarrow> ('w, 'b) go \<Rightarrow> ('w, 'b) go" where
  [go_simps]: "go_then m n = go_bind m (\<lambda>_. n)"

definition go_modify :: "('w \<Rightarrow> 'w) \<Rightarrow> ('w, unit) go" where
  [go_simps]: "go_modify f = (\<lambda>w. (Ret (), f w))"

text \<open>A deferred \<^verbatim>\<open>recover\<close>: the first continuation on a return, the second on a panic.\<close>

definition go_try :: "('w, 'a) go \<Rightarrow> ('a \<Rightarrow> ('w, 'b) go) \<Rightarrow> (string \<Rightarrow> ('w, 'b) go) \<Rightarrow> ('w, 'b) go" where
  [go_simps]: "go_try m f h = (\<lambda>w. case m w of (Ret x, w') \<Rightarrow> f x w' | (Panic e, w') \<Rightarrow> h e w')"

text \<open>
  \<open>wp m Q w\<close>: from state \<open>w\<close> the computation returns (it does not panic) and its result and
  final state satisfy \<open>Q\<close>.
\<close>

definition wp :: "('w, 'a) go \<Rightarrow> ('a \<Rightarrow> 'w \<Rightarrow> bool) \<Rightarrow> 'w \<Rightarrow> bool" where
  "wp m Q w = (case m w of (Ret x, w') \<Rightarrow> Q x w' | (Panic e, w') \<Rightarrow> False)"

lemma wp_ret [wp_simps]: "wp (go_ret x) Q = Q x"
  by (simp add: wp_def go_ret_def fun_eq_iff)

lemma wp_panic [wp_simps]: "wp (go_panic e) Q w = False"
  by (simp add: wp_def go_panic_def)

lemma wp_modify [wp_simps]: "wp (go_modify f) Q w = Q () (f w)"
  by (simp add: wp_def go_modify_def)

lemma wp_bind [wp_simps]: "wp (go_bind m f) Q = wp m (\<lambda>x. wp (f x) Q)"
  by (auto simp: wp_def go_bind_def fun_eq_iff split: prod.splits outcome.splits)

lemma wp_then [wp_simps]: "wp (go_then m n) Q = wp m (\<lambda>_. wp n Q)"
  by (simp add: go_then_def wp_bind)

lemma wp_try: "wp m (\<lambda>x. wp (f x) Q) w \<Longrightarrow> wp (go_try m f h) Q w"
  by (auto simp: wp_def go_try_def split: prod.splits outcome.splits)

lemma wp_mono: "wp m Q w \<Longrightarrow> (\<And>x w'. Q x w' \<Longrightarrow> R x w') \<Longrightarrow> wp m R w"
  by (auto simp: wp_def split: prod.splits outcome.splits)

lemma wp_conj: "wp m Q w \<Longrightarrow> wp m R w \<Longrightarrow> wp m (\<lambda>x w'. Q x w' \<and> R x w') w"
  by (auto simp: wp_def split: prod.splits outcome.splits)

lemma wp_run: "wp m Q w \<Longrightarrow> m w = (Ret x, w') \<Longrightarrow> Q x w'"
  by (simp add: wp_def)

lemma wp_returns: "wp m Q w \<Longrightarrow> \<exists>x w'. m w = (Ret x, w') \<and> Q x w'"
  by (auto simp: wp_def split: prod.splits outcome.splits)

lemma go_bind_assoc: "go_bind (go_bind m f) g = go_bind m (\<lambda>x. go_bind (f x) g)"
  by (auto simp: go_bind_def fun_eq_iff split: prod.splits outcome.splits)

text \<open>
  \<open>always m P\<close>: from every state the computation returns, and its result satisfies \<open>P\<close>,
  whatever the state is.
\<close>

definition always :: "('w, 'a) go \<Rightarrow> ('a \<Rightarrow> bool) \<Rightarrow> bool" where
  "always m P = (\<forall>w. wp m (\<lambda>x _. P x) w)"

abbreviation returns :: "('w, 'a) go \<Rightarrow> bool" where
  "returns m \<equiv> always m (\<lambda>_. True)"

lemma always_ret [always_intros]: "P x \<Longrightarrow> always (go_ret x) P"
  by (simp add: always_def wp_ret)

lemma always_modify [always_intros]: "P () \<Longrightarrow> always (go_modify f) P"
  by (simp add: always_def wp_modify)

lemma always_bind [always_intros]: "returns m \<Longrightarrow> (\<And>x. always (f x) P) \<Longrightarrow> always (go_bind m f) P"
  unfolding always_def wp_bind by (blast intro: wp_mono)

lemma always_bind_post: "always m Q \<Longrightarrow> (\<And>x. Q x \<Longrightarrow> always (f x) P) \<Longrightarrow> always (go_bind m f) P"
  unfolding always_def wp_bind by (blast intro: wp_mono)

lemma always_then [always_intros]: "returns m \<Longrightarrow> always n P \<Longrightarrow> always (go_then m n) P"
  unfolding go_then_def by (rule always_bind)

lemma always_try: "always m Q \<Longrightarrow> (\<And>x. Q x \<Longrightarrow> always (f x) P) \<Longrightarrow> always (go_try m f h) P"
  unfolding always_def by (blast intro: wp_try wp_mono)

lemma always_mono: "always m Q \<Longrightarrow> (\<And>x. Q x \<Longrightarrow> P x) \<Longrightarrow> always m P"
  unfolding always_def by (blast intro: wp_mono)

lemma always_cases [always_intros]:
  "(b \<Longrightarrow> always m P) \<Longrightarrow> (\<not> b \<Longrightarrow> always n P) \<Longrightarrow> always (if b then m else n) P"
  "(v = None \<Longrightarrow> always m P) \<Longrightarrow> (\<And>x. v = Some x \<Longrightarrow> always (f x) P) \<Longrightarrow> always (case v of None \<Rightarrow> m | Some x \<Rightarrow> f x) P"
  "(\<And>x. s = Inl x \<Longrightarrow> always (g x) P) \<Longrightarrow> (\<And>y. s = Inr y \<Longrightarrow> always (h y) P) \<Longrightarrow> always (case s of Inl x \<Rightarrow> g x | Inr y \<Rightarrow> h y) P"
  "(\<And>a b. p = (a, b) \<Longrightarrow> always (k a b) P) \<Longrightarrow> always (case p of (a, b) \<Rightarrow> k a b) P"
  by (simp_all split: option.splits sum.splits prod.splits)

lemma always_run: "always m P \<Longrightarrow> \<exists>x w'. m w = (Ret x, w') \<and> P x"
  unfolding always_def using wp_returns by fastforce

section \<open>Integers\<close>

text \<open>Two's complement wrap-around of Go's 64-bit \<^verbatim>\<open>int\<close> and \<^verbatim>\<open>int64\<close>.\<close>

definition wrap64 :: "int \<Rightarrow> int" where
  "wrap64 i = signed_take_bit 63 i"

lemma wrap64_id: "- (2 ^ 63) \<le> i \<Longrightarrow> i < 2 ^ 63 \<Longrightarrow> wrap64 i = i"
  by (simp add: wrap64_def signed_take_bit_int_eq_self)

lemma wrap64_range: "- (2 ^ 63) \<le> wrap64 i \<and> wrap64 i < 2 ^ 63"
  using signed_take_bit_int_greater_eq_minus_exp [of 63 i] signed_take_bit_int_less_exp [of 63 i]
  by (simp only: wrap64_def)

text \<open>Go's integer division truncates towards zero.\<close>

definition go_div :: "int \<Rightarrow> int \<Rightarrow> int" where
  "go_div a b = sgn a * sgn b * (\<bar>a\<bar> div \<bar>b\<bar>)"

text \<open>The decimal digits \<^verbatim>\<open>strconv.Itoa\<close> and \<^verbatim>\<open>%d\<close> print.\<close>

definition digit_char :: "nat \<Rightarrow> char" where
  "digit_char d = char_of (48 + d)"

fun nat_digits :: "nat \<Rightarrow> string" where
  "nat_digits n = (if n < 10 then [digit_char n] else nat_digits (n div 10) @ [digit_char (n mod 10)])"

declare nat_digits.simps [simp del]

definition Itoa :: "int \<Rightarrow> string" where
  "Itoa i = (if i < 0 then ''-'' @ nat_digits (nat (- i)) else nat_digits (nat i))"

lemma nat_digits_nonempty: "nat_digits n \<noteq> []"
  by (subst nat_digits.simps) simp

lemma of_char_digit: "d < 10 \<Longrightarrow> of_char (digit_char d) = (48 + d :: nat)"
  by (simp add: digit_char_def)

lemma digit_char_eq: "a < 10 \<Longrightarrow> b < 10 \<Longrightarrow> digit_char a = digit_char b \<longleftrightarrow> a = b"
  by (metis add_left_cancel of_char_digit)

lemma nat_digits_single: "nat_digits n = [c] \<Longrightarrow> n < 10"
  by (subst (asm) nat_digits.simps) (auto simp: nat_digits_nonempty split: if_splits)

lemma nat_digits_inj: "nat_digits m = nat_digits n \<Longrightarrow> m = n"
proof (induction m arbitrary: n rule: nat_digits.induct)
  case (1 m)
  show ?case
  proof (cases "m < 10 \<or> n < 10")
    case True
    with "1.prems" have "m < 10" and "n < 10"
      by (metis nat_digits.simps nat_digits_single)+
    with "1.prems" show ?thesis
      by (simp add: nat_digits.simps [of m] nat_digits.simps [of n] digit_char_eq)
  next
    case False
    with "1.prems"
    have d: "nat_digits (m div 10) = nat_digits (n div 10)" and r: "m mod 10 = n mod 10"
      by (simp_all add: nat_digits.simps [of m] nat_digits.simps [of n] digit_char_eq)
    from "1.IH" [OF _ d] False have "m div 10 = n div 10" by simp
    with r show ?thesis by (metis div_mult_mod_eq)
  qed
qed

lemma nat_digits_are_digits: "c \<in> set (nat_digits n) \<Longrightarrow> \<exists>d<10. c = digit_char d"
proof (induction n rule: nat_digits.induct)
  case (1 n)
  then show ?case
    by (subst (asm) (2) nat_digits.simps)
       (auto split: if_splits intro: exI [of _ "n mod 10"])
qed

section \<open>Strings\<close>

definition HasPrefix :: "string \<Rightarrow> string \<Rightarrow> bool" where
  [str_simps]: "HasPrefix s p = (take (length p) s = p)"

definition HasSuffix :: "string \<Rightarrow> string \<Rightarrow> bool" where
  [str_simps]: "HasSuffix s p = (length p \<le> length s \<and> drop (length s - length p) s = p)"

definition TrimSuffix :: "string \<Rightarrow> string \<Rightarrow> string" where
  [str_simps]: "TrimSuffix s p = (if HasSuffix s p then take (length s - length p) s else s)"

text \<open>\<^verbatim>\<open>strings.Cut\<close> at a one-byte separator: before, after, found.\<close>

fun Cut :: "string \<Rightarrow> char \<Rightarrow> string \<times> string \<times> bool" where
  "Cut [] c = ([], [], False)"
| "Cut (x # xs) c =
     (if x = c then ([], xs, True)
      else (case Cut xs c of (b, a, f) \<Rightarrow> (x # b, a, f)))"

text \<open>\<^verbatim>\<open>strings.LastIndex\<close> of a one-byte string; \<open>None\<close> for \<open>-1\<close>.\<close>

fun LastIndex :: "string \<Rightarrow> char \<Rightarrow> nat option" where
  "LastIndex [] c = None"
| "LastIndex (x # xs) c =
     (case LastIndex xs c of Some i \<Rightarrow> Some (Suc i) | None \<Rightarrow> if x = c then Some 0 else None)"

fun Join :: "string list \<Rightarrow> string \<Rightarrow> string" where
  "Join [] sep = []"
| "Join [s] sep = s"
| "Join (s # t # ss) sep = s @ sep @ Join (t # ss) sep"

definition ascii_lower :: "char \<Rightarrow> char" where
  "ascii_lower c = (let n = (of_char c :: nat) in if 65 \<le> n \<and> n \<le> 90 then char_of (n + 32) else c)"

text \<open>
  \<^verbatim>\<open>strings.ToLower\<close>: the ASCII fast path, and for any other string the Unicode case table,
  which is the parameter \<open>U\<close>.
\<close>

definition is_ascii :: "string \<Rightarrow> bool" where
  "is_ascii s = list_all (\<lambda>c. (of_char c :: nat) < 128) s"

definition ToLower :: "(string \<Rightarrow> string) \<Rightarrow> string \<Rightarrow> string" where
  "ToLower U s = (if is_ascii s then map ascii_lower s else U s)"

lemma Cut_notin: "c \<notin> set s \<Longrightarrow> Cut s c = (s, [], False)"
  by (induction s) auto

lemma Cut_append: "c \<notin> set s \<Longrightarrow> Cut (s @ c # t) c = (s, t, True)"
  by (induction s) auto

lemma Cut_append_in: "c \<in> set s \<Longrightarrow> Cut s c = (b, a, f) \<Longrightarrow> Cut (s @ t) c = (b, a @ t, f)"
  by (induction s arbitrary: b a f) (auto split: if_splits prod.splits)

lemma HasSuffix_append: "HasSuffix (s @ p) p"
  by (simp add: HasSuffix_def)

lemma HasSuffix_iff: "HasSuffix s p \<longleftrightarrow> (\<exists>t. s = t @ p)"
  by (auto simp: HasSuffix_def) (metis append_take_drop_id)

lemma TrimSuffix_append: "TrimSuffix (s @ p) p = s"
  by (simp add: TrimSuffix_def HasSuffix_append)

lemma TrimSuffix_other: "\<not> HasSuffix s p \<Longrightarrow> TrimSuffix s p = s"
  by (simp add: TrimSuffix_def)

section \<open>Contexts\<close>

text \<open>
  \<^verbatim>\<open>context.Context\<close> values as the sources build them: the background context, the context
  of request \<open>n\<close>, and the two derivations the code uses. A duration is in nanoseconds.
\<close>

datatype ctx = Background | ReqCtx nat | WithTimeout ctx int | WithoutCancel ctx

text \<open>Whether a context is cancelled, given which request contexts have been cancelled.\<close>

fun cancelled :: "nat set \<Rightarrow> ctx \<Rightarrow> bool" where
  "cancelled C Background = False"
| "cancelled C (ReqCtx n) = (n \<in> C)"
| "cancelled C (WithTimeout c d) = cancelled C c"
| "cancelled C (WithoutCancel c) = False"

definition Nanosecond :: int where "Nanosecond = 1"
definition Millisecond :: int where "Millisecond = 1000000"
definition Second :: int where "Second = 1000000000"
definition Minute :: int where "Minute = 60 * Second"

section \<open>Maps and lists\<close>

lemma map_le_upd_same: "m \<subseteq>\<^sub>m m' \<Longrightarrow> m(k \<mapsto> v) \<subseteq>\<^sub>m m'(k \<mapsto> v)"
  by (auto simp: map_le_def)

lemma map_leD: "m \<subseteq>\<^sub>m m' \<Longrightarrow> m k = Some v \<Longrightarrow> m' k = Some v"
  by (metis domI map_le_def)

lemma sorted_nth_le: "sorted xs \<Longrightarrow> i \<le> j \<Longrightarrow> j < length xs \<Longrightarrow> xs ! i \<le> xs ! j"
  by (rule sorted_nth_mono)

end
