(* ===== verification/Go_Time.thy ===== *)
theory Go_Time
  imports Prelude
begin

text \<open>
  The part of Go's \<^verbatim>\<open>time\<close> package the gateway uses. A \<^verbatim>\<open>time.Time\<close> is
  its wall clock reading: the seconds since 1 January of year 1 (the package's internal 64-bit
  field) and the nanoseconds within the second. The gateway runs in a container without time zone
  data, so the local zone is UTC.
\<close>

datatype gotime = Time (tsec: int) (tnsec: int)

text \<open>\<^verbatim>\<open>Before\<close> is the strict part of this order: seconds first, then nanoseconds.\<close>

instantiation gotime :: linorder
begin

definition less_eq_gotime :: "gotime \<Rightarrow> gotime \<Rightarrow> bool" where
  "less_eq_gotime s t = (tsec s < tsec t \<or> (tsec s = tsec t \<and> tnsec s \<le> tnsec t))"

definition less_gotime :: "gotime \<Rightarrow> gotime \<Rightarrow> bool" where
  "less_gotime s t = (tsec s < tsec t \<or> (tsec s = tsec t \<and> tnsec s < tnsec t))"

instance
  by intro_classes (auto simp: less_eq_gotime_def less_gotime_def gotime.expand)

end

abbreviation Before :: "gotime \<Rightarrow> gotime \<Rightarrow> bool" where
  "Before s t \<equiv> s < t"

text \<open>
  \<^verbatim>\<open>t.AddDate(0, 0, days)\<close> in UTC: the package normalises the day count into seconds with
  64-bit arithmetic, so a large enough day count wraps around.
\<close>

definition AddDays :: "gotime \<Rightarrow> int \<Rightarrow> gotime" where
  "AddDays t days = Time (wrap64 (tsec t + 86400 * days)) (tnsec t)"

section \<open>RFC 3339 formatting\<close>

definition is_leap :: "int \<Rightarrow> bool" where
  "is_leap y = (y mod 4 = 0 \<and> (y mod 100 \<noteq> 0 \<or> y mod 400 = 0))"

definition month_lengths :: "int \<Rightarrow> int list" where
  "month_lengths y = [31, (if is_leap y then 29 else 28), 31, 30, 31, 30, 31, 31, 30, 31, 30, 31]"

fun month_day :: "int list \<Rightarrow> int \<Rightarrow> int \<Rightarrow> int \<times> int" where
  "month_day [] m d = (m, d + 1)"
| "month_day (n # ns) m d = (if d < n then (m, d + 1) else month_day ns (m + 1) (d - n))"

text \<open>Year and day of the year (from 0) of a day number counted from 1 January of year 1.\<close>

definition year_day :: "int \<Rightarrow> int \<times> int" where
  "year_day d =
     (let n400 = d div 146097; r = d mod 146097;
          n100 = min 3 (r div 36524); r1 = r - 36524 * n100;
          n4 = r1 div 1461; r2 = r1 - 1461 * n4;
          n1 = min 3 (r2 div 365)
      in (400 * n400 + 100 * n100 + 4 * n4 + n1 + 1, r2 - 365 * n1))"

fun pad_left :: "nat \<Rightarrow> string \<Rightarrow> string" where
  "pad_left w s = replicate (w - length s) (CHR ''0'') @ s"

definition appendInt :: "int \<Rightarrow> nat \<Rightarrow> string" where
  "appendInt i w = (if i < 0 then ''-'' else '''') @ pad_left w (nat_digits (nat \<bar>i\<bar>))"

definition Format_RFC3339 :: "gotime \<Rightarrow> string" where
  "Format_RFC3339 t =
     (let days = tsec t div 86400; sod = tsec t mod 86400;
          (y, doy) = year_day days;
          (m, d) = month_day (month_lengths y) 1 doy
      in appendInt y 4 @ ''-'' @ appendInt m 2 @ ''-'' @ appendInt d 2 @ ''T''
         @ appendInt (sod div 3600) 2 @ '':'' @ appendInt (sod div 60 mod 60) 2 @ '':''
         @ appendInt (sod mod 60) 2 @ ''Z'')"

text \<open>
  The calendar arithmetic is exact: a year starts \<open>days_before_year\<close> days after the epoch, and
  year and day of the year together give the day number back.
\<close>

definition days_before_year :: "int \<Rightarrow> int" where
  "days_before_year y = 365 * (y - 1) + (y - 1) div 4 - (y - 1) div 100 + (y - 1) div 400"

lemma days_before_cycle:
  assumes "0 \<le> n100" "n100 \<le> 3" "0 \<le> n4" "n4 \<le> 24" "0 \<le> n1" "n1 \<le> 3"
  shows "days_before_year (400 * n400 + 100 * n100 + 4 * n4 + n1 + 1)
           = 146097 * n400 + 36524 * n100 + 1461 * n4 + 365 * n1"
proof -
  let ?y = "400 * n400 + 100 * n100 + 4 * n4 + n1"
  from assms have "?y div 400 = n400" and "?y div 100 = 4 * n400 + n100"
    and "?y div 4 = 100 * n400 + 25 * n100 + n4"
    by linarith+
  then show ?thesis by (simp add: days_before_year_def)
qed

lemma year_day_exact:
  assumes "year_day d = (y, doy)"
  shows "days_before_year y + doy = d" and "0 \<le> doy" and "doy \<le> 365"
proof -
  define r where "r = d mod 146097"
  define n100 where "n100 = min 3 (r div 36524)"
  define r1 where "r1 = r - 36524 * n100"
  define n4 where "n4 = r1 div 1461"
  define r2 where "r2 = r1 - 1461 * n4"
  define n1 where "n1 = min 3 (r2 div 365)"
  have "year_day d = (400 * (d div 146097) + 100 * n100 + 4 * n4 + n1 + 1, r2 - 365 * n1)"
    by (simp only: year_day_def Let_def r_def n100_def r1_def n4_def r2_def n1_def)
  with assms
  have y: "y = 400 * (d div 146097) + 100 * n100 + 4 * n4 + n1 + 1" and doy: "doy = r2 - 365 * n1"
    by simp_all
  have r: "0 \<le> r" "r < 146097" by (simp_all add: r_def)
  then have n100: "0 \<le> n100" "n100 \<le> 3" and r1: "0 \<le> r1" "r1 \<le> 36524"
    by (auto simp: n100_def r1_def)
  then have n4: "0 \<le> n4" "n4 \<le> 24" by (auto simp: n4_def)
  have r2: "r2 = r1 mod 1461" by (simp add: r2_def n4_def minus_mult_div_eq_mod)
  then have n1: "0 \<le> n1" "n1 \<le> 3" by (auto simp: n1_def)
  have d: "d = 146097 * (d div 146097) + r" by (simp add: r_def)
  show "days_before_year y + doy = d"
    using days_before_cycle [OF n100 n4 n1, of "d div 146097"] d
    by (simp add: y doy r1_def r2_def)
  show "0 \<le> doy" and "doy \<le> 365"
    using r2 by (auto simp: doy n1_def)
qed

end
