(* ===== verification/Url_Model.thy ===== *)
theory Url_Model
  imports Go_Time
begin

text \<open>
  The data of the gateway (\<^verbatim>\<open>internal/model\<close>, the error values of the packages) and
  the world its code runs in: the external services as a record \<open>env\<close> of operations on a state
  of unknown type \<open>'x\<close> (PostgreSQL through pgx, Redis through go-redis, the gobreaker circuit
  breaker, the clock, the UUID generator, the JSON codec of a URL record), and the named hypotheses
  that state their documented behaviour.
\<close>

section \<open>internal/model/url.go\<close>

type_synonym uuid = "128 word"
type_synonym client = nat \<comment> \<open>identity of a \<^verbatim>\<open>*redis.Client\<close>\<close>

record url =
  ID :: uuid
  ShortCode :: string
  OriginalURL :: string
  CreatedAt :: gotime
  ExpiresAt :: "gotime option"
  ClickCount :: int

record create_url_request =
  req_URL :: string
  req_CustomAlias :: string
  req_ExpiresIn :: int

record create_url_response =
  crs_ShortCode :: string
  crs_ShortURL :: string
  crs_ExpiresAt :: string

record url_response =
  urs_ShortCode :: string
  urs_OriginalURL :: string
  urs_ShortURL :: string
  urs_CreatedAt :: string
  urs_ExpiresAt :: string
  urs_ClickCount :: int

record error_response =
  err_Error :: string
  err_Message :: string

text \<open>\<^verbatim>\<open>analytics.ClickEvent\<close>\<close>

record click_event =
  ev_ShortCode :: string
  ev_ClickedAt :: gotime
  ev_IP :: string
  ev_Referer :: string

section \<open>Errors\<close>

datatype pg_error = ErrNoRows | PgError string | PgOther string

datatype repo_err = ErrNotFound | ErrCodeConflict | DbError pg_error

datatype redis_err = RedisNil | RedisOther string

datatype cb_err = ErrOpenState | ErrTooManyRequests

datatype cache_err = CacheErr redis_err | BreakerErr cb_err

datatype service_err =
    ErrInvalidURL | ErrURLNotFound | ErrURLExpired | ErrCodeExists | ErrInvalidAlias
  | ErrShortCodeGeneration | RepoErr repo_err

datatype cb_state = StateClosed | StateHalfOpen | StateOpen

section \<open>The world\<close>

text \<open>The columns of table \<open>urls\<close> that the queries name.\<close>

record url_row =
  row_id :: uuid
  row_short_code :: string
  row_original_url :: string
  row_created_at :: gotime
  row_expires_at :: "gotime option"

record 'x env =
  redis_Get :: "ctx \<Rightarrow> client \<Rightarrow> string \<Rightarrow> 'x \<Rightarrow> (redis_err + string) \<times> 'x"
  redis_Set :: "ctx \<Rightarrow> client \<Rightarrow> string \<Rightarrow> string \<Rightarrow> int \<Rightarrow> 'x \<Rightarrow> redis_err option \<times> 'x"
  redis_Del :: "ctx \<Rightarrow> client \<Rightarrow> string \<Rightarrow> 'x \<Rightarrow> redis_err option \<times> 'x"
  redis_Ping :: "ctx \<Rightarrow> client \<Rightarrow> 'x \<Rightarrow> redis_err option \<times> 'x"
  pg_insert :: "ctx \<Rightarrow> uuid \<Rightarrow> string \<Rightarrow> string \<Rightarrow> gotime option \<Rightarrow> 'x \<Rightarrow> (pg_error + uuid \<times> gotime) \<times> 'x"
  pg_select :: "ctx \<Rightarrow> string \<Rightarrow> 'x \<Rightarrow> (pg_error + url_row) \<times> 'x"
  pg_delete :: "ctx \<Rightarrow> string \<Rightarrow> 'x \<Rightarrow> (pg_error + nat) \<times> 'x"
  pg_Ping :: "ctx \<Rightarrow> 'x \<Rightarrow> pg_error option \<times> 'x"
  cb_before :: "'x \<Rightarrow> cb_err option \<times> 'x"
  cb_after :: "bool \<Rightarrow> 'x \<Rightarrow> 'x"
  cb_State :: "'x \<Rightarrow> cb_state \<times> 'x"
  time_Now :: "'x \<Rightarrow> gotime \<times> 'x"
  uuid_New :: "'x \<Rightarrow> uuid \<times> 'x"
  json_Marshal :: "url \<Rightarrow> string option"
  json_Unmarshal :: "string \<Rightarrow> url option"
  unicode_lower :: "string \<Rightarrow> string"

text \<open>The instruments of the repository and what is added to them.\<close>

datatype metric =
    CacheHits string      \<comment> \<open>label: cache node\<close>
  | CacheMisses string    \<comment> \<open>label: cache node\<close>
  | DbQueryDuration string \<comment> \<open>label: operation; the measured duration is not modelled\<close>
  | TotalErrors string    \<comment> \<open>label: type\<close>

text \<open>
  The state of one gateway process and its services: the services' state, the metric points
  recorded so far, and the click events handed to publishing goroutines.
\<close>

record 'x world =
  ext :: 'x
  metrics :: "metric list"
  spawned :: "click_event list"

definition call :: "('x \<Rightarrow> 'a \<times> 'x) \<Rightarrow> ('x world, 'a) go" where
  "call f = (\<lambda>w. case f (ext w) of (a, x) \<Rightarrow> (Ret a, w\<lparr>ext := x\<rparr>))"

definition emit :: "metric \<Rightarrow> ('x world, unit) go" where
  "emit m = go_modify (\<lambda>w. w\<lparr>metrics := metrics w @ [m]\<rparr>)"

lemma wp_call [wp_simps]:
  "wp (call f) Q w = (case f (ext w) of (a, x) \<Rightarrow> Q a (w\<lparr>ext := x\<rparr>))"
  by (simp add: wp_def call_def split: prod.splits)

lemma wp_emit [wp_simps]: "wp (emit m) Q w = Q () (w\<lparr>metrics := metrics w @ [m]\<rparr>)"
  by (simp add: emit_def wp_modify)

section \<open>Valid UTF-8\<close>

text \<open>What PostgreSQL accepts as text and what \<^verbatim>\<open>encoding/json\<close> round-trips.\<close>

definition cont_byte :: "char \<Rightarrow> bool" where
  "cont_byte c = (128 \<le> (of_char c :: nat) \<and> (of_char c :: nat) \<le> 191)"

definition in_range :: "char \<Rightarrow> nat \<Rightarrow> nat \<Rightarrow> bool" where
  "in_range c lo hi = (lo \<le> of_char c \<and> of_char c \<le> hi)"

fun valid_utf8 :: "string \<Rightarrow> bool" where
  "valid_utf8 [] = True"
| "valid_utf8 (a # cs) =
     (if in_range a 0 127 then valid_utf8 cs
      else if in_range a 194 223 then
        (case cs of b # r \<Rightarrow> cont_byte b \<and> valid_utf8 r | _ \<Rightarrow> False)
      else if in_range a 224 239 then
        (case cs of
           b # c # r \<Rightarrow> cont_byte b \<and> cont_byte c
             \<and> (in_range a 224 224 \<longrightarrow> in_range b 160 191) \<and> (in_range a 237 237 \<longrightarrow> in_range b 128 159)
             \<and> valid_utf8 r
         | _ \<Rightarrow> False)
      else if in_range a 240 244 then
        (case cs of
           b # c # d # r \<Rightarrow> cont_byte b \<and> cont_byte c \<and> cont_byte d
             \<and> (in_range a 240 240 \<longrightarrow> in_range b 144 191) \<and> (in_range a 244 244 \<longrightarrow> in_range b 128 143)
             \<and> valid_utf8 r
         | _ \<Rightarrow> False)
      else False)"

section \<open>Documented behaviour of the services\<close>

text \<open>
  A view names what the hypotheses speak about: the rows of table \<open>urls\<close> by short code and the
  live entries of each Redis node. Entries may vanish at any time (they expire, a node evicts), so
  the laws bound them from above only.
\<close>

record 'x view =
  rows :: "'x \<Rightarrow> string \<rightharpoonup> url_row"
  entries :: "'x \<Rightarrow> client \<Rightarrow> string \<rightharpoonup> string"

text \<open>\<^verbatim>\<open>timestamptz\<close> has microsecond resolution; pgx drops what is below it.\<close>

definition pg_micros :: "gotime \<Rightarrow> gotime" where
  "pg_micros t = Time (tsec t) (tnsec t div 1000 * 1000)"

lemma pg_micros_idem [simp]: "pg_micros (pg_micros t) = pg_micros t"
  by (simp add: pg_micros_def)

definition entries_shrink :: "'x view \<Rightarrow> 'x \<Rightarrow> 'x \<Rightarrow> bool" where
  "entries_shrink V x x' = (\<forall>c. entries V x' c \<subseteq>\<^sub>m entries V x c)"

definition keeps :: "'x view \<Rightarrow> 'x \<Rightarrow> 'x \<Rightarrow> bool" where
  "keeps V x x' = (rows V x' = rows V x \<and> entries_shrink V x x')"

lemma keeps_refl [simp]: "keeps V x x"
  by (simp add: keeps_def entries_shrink_def)

lemma keeps_trans: "keeps V x y \<Longrightarrow> keeps V y z \<Longrightarrow> keeps V x z"
  unfolding keeps_def entries_shrink_def by (metis map_le_trans)

definition inserted_row :: "uuid \<Rightarrow> string \<Rightarrow> string \<Rightarrow> gotime \<Rightarrow> gotime option \<Rightarrow> url_row" where
  "inserted_row i code url t exp =
     \<lparr>row_id = i, row_short_code = code, row_original_url = url, row_created_at = t,
      row_expires_at = map_option pg_micros exp\<rparr>"

definition row_valid :: "string \<Rightarrow> url_row \<Rightarrow> bool" where
  "row_valid code row =
     (row_short_code row = code \<and> valid_utf8 code \<and> valid_utf8 (row_original_url row)
      \<and> map_option pg_micros (row_expires_at row) = row_expires_at row)"

text \<open>What \<^verbatim>\<open>time.Time.MarshalJSON\<close> accepts.\<close>

definition json_time_ok :: "gotime \<Rightarrow> bool" where
  "json_time_ok t =
     (let y = fst (year_day (tsec t div 86400)) in 0 \<le> y \<and> y \<le> 9999 \<and> 0 \<le> tnsec t \<and> tnsec t < 1000000000)"

text \<open>
  PostgreSQL: an insert adds the row and returns its generated values, which the unique constraint
  on \<open>short_code\<close> permits only for a new code, or fails and adds nothing; a select by short code
  returns the row if there is one; a delete reports how many rows it removed. A failed statement
  is rolled back.
\<close>

definition pg_insert_law :: "'x env \<Rightarrow> 'x view \<Rightarrow> bool" where
  "pg_insert_law E V =
     (\<forall>ctx id code url exp x r x'. pg_insert E ctx id code url exp x = (r, x') \<longrightarrow>
        entries_shrink V x x'
        \<and> (case r of
             Inr (id', t) \<Rightarrow> id' = id \<and> rows V x code = None \<and> valid_utf8 code \<and> valid_utf8 url
               \<and> json_time_ok t
               \<and> rows V x' = (rows V x)(code \<mapsto> inserted_row id code url t exp)
           | Inl e \<Rightarrow> rows V x' = rows V x))"

definition pg_select_law :: "'x env \<Rightarrow> 'x view \<Rightarrow> bool" where
  "pg_select_law E V =
     (\<forall>ctx code x r x'. pg_select E ctx code x = (r, x') \<longrightarrow>
        keeps V x x'
        \<and> (case r of
             Inr row \<Rightarrow> rows V x code = Some row \<and> row_valid code row
           | Inl e \<Rightarrow> (e = ErrNoRows \<longrightarrow> rows V x code = None)))"

definition pg_delete_law :: "'x env \<Rightarrow> 'x view \<Rightarrow> bool" where
  "pg_delete_law E V =
     (\<forall>ctx code x r x'. pg_delete E ctx code x = (r, x') \<longrightarrow>
        entries_shrink V x x'
        \<and> (case r of
             Inr n \<Rightarrow> n = (if rows V x code = None then 0 else 1) \<and> rows V x' = (rows V x)(code := None)
           | Inl e \<Rightarrow> rows V x' = rows V x))"

text \<open>
  A reachable database answers: an insert of an existing code fails with SQLSTATE 23505 (unique
  violation), a select finds the row or says there is none, a delete is carried out.
\<close>

definition pg_up :: "'x env \<Rightarrow> 'x view \<Rightarrow> bool" where
  "pg_up E V =
     ((\<forall>ctx i code url exp x. rows V x code \<noteq> None \<longrightarrow>
         fst (pg_insert E ctx i code url exp x) = Inl (PgError ''23505''))
      \<and> (\<forall>ctx code x. rows V x code = None \<longrightarrow> fst (pg_select E ctx code x) = Inl ErrNoRows)
      \<and> (\<forall>ctx code x. rows V x code \<noteq> None \<longrightarrow> \<not> isl (fst (pg_select E ctx code x)))
      \<and> (\<forall>ctx code x. \<not> isl (fst (pg_delete E ctx code x))))"

text \<open>
  Redis: a successful \<open>GET\<close> returns the live entry, \<open>redis.Nil\<close> says there is none; a
  successful \<open>SET\<close> or \<open>DEL\<close> takes effect on the addressed node and key only; a failed one
  (a timeout) may or may not have taken effect. No Redis operation touches the database.
\<close>

definition redis_get_law :: "'x env \<Rightarrow> 'x view \<Rightarrow> bool" where
  "redis_get_law E V =
     (\<forall>ctx c k x r x'. redis_Get E ctx c k x = (r, x') \<longrightarrow>
        keeps V x x'
        \<and> (case r of Inr v \<Rightarrow> entries V x c k = Some v
           | Inl e \<Rightarrow> (e = RedisNil \<longrightarrow> entries V x' c k = None)))"

definition redis_set_law :: "'x env \<Rightarrow> 'x view \<Rightarrow> bool" where
  "redis_set_law E V =
     (\<forall>ctx c k v ttl x r x'. redis_Set E ctx c k v ttl x = (r, x') \<longrightarrow>
        rows V x' = rows V x
        \<and> (\<forall>c'. c' \<noteq> c \<longrightarrow> entries V x' c' \<subseteq>\<^sub>m entries V x c')
        \<and> (case r of None \<Rightarrow> entries V x' c \<subseteq>\<^sub>m (entries V x c)(k \<mapsto> v)
           | Some e \<Rightarrow> entries V x' c \<subseteq>\<^sub>m (entries V x c)(k \<mapsto> v) \<or> entries V x' c \<subseteq>\<^sub>m entries V x c))"

definition redis_del_law :: "'x env \<Rightarrow> 'x view \<Rightarrow> bool" where
  "redis_del_law E V =
     (\<forall>ctx c k x r x'. redis_Del E ctx c k x = (r, x') \<longrightarrow>
        keeps V x x' \<and> (r = None \<longrightarrow> entries V x' c k = None))"

text \<open>The breaker, the clock and the UUID generator touch neither store.\<close>

definition frame_law :: "'x env \<Rightarrow> 'x view \<Rightarrow> bool" where
  "frame_law E V =
     ((\<forall>x. keeps V x (snd (cb_before E x))) \<and> (\<forall>b x. keeps V x (cb_after E b x))
      \<and> (\<forall>x. keeps V x (snd (cb_State E x))) \<and> (\<forall>x. keeps V x (snd (time_Now E x)))
      \<and> (\<forall>x. keeps V x (snd (uuid_New E x))) \<and> (\<forall>ctx x. keeps V x (snd (pg_Ping E ctx x)))
      \<and> (\<forall>ctx c x. keeps V x (snd (redis_Ping E ctx c x))))"

text \<open>
  The JSON codec encodes a URL whose times have four-digit years, and gives back what it encoded
  when the strings are valid UTF-8; its output is an object, so it starts with a brace.
\<close>

definition codec_law :: "'x env \<Rightarrow> bool" where
  "codec_law E =
     ((\<forall>u. json_time_ok (CreatedAt u) \<longrightarrow> pred_option json_time_ok (ExpiresAt u) \<longrightarrow> json_Marshal E u \<noteq> None)
      \<and> (\<forall>u s. json_Marshal E u = Some s \<longrightarrow> valid_utf8 (ShortCode u) \<longrightarrow> valid_utf8 (OriginalURL u) \<longrightarrow>
           json_Unmarshal E s = Some u \<and> HasPrefix s ''{''))"

definition services_ok :: "'x env \<Rightarrow> 'x view \<Rightarrow> bool" where
  "services_ok E V =
     (pg_insert_law E V \<and> pg_select_law E V \<and> pg_delete_law E V
      \<and> redis_get_law E V \<and> redis_set_law E V \<and> redis_del_law E V
      \<and> frame_law E V \<and> codec_law E)"

lemma services_okD:
  assumes "services_ok E V"
  shows "pg_insert_law E V" "pg_select_law E V" "pg_delete_law E V" "redis_get_law E V"
    "redis_set_law E V" "redis_del_law E V" "frame_law E V" "codec_law E"
  using assms by (simp_all add: services_ok_def)

lemma frame_keeps:
  assumes "frame_law E V"
  shows "keeps V x (snd (cb_before E x))" "keeps V x (cb_after E b x)"
    "keeps V x (snd (cb_State E x))" "keeps V x (snd (time_Now E x))"
    "keeps V x (snd (uuid_New E x))" "keeps V x (snd (pg_Ping E ctx x))"
    "keeps V x (snd (redis_Ping E ctx c x))"
  using assms by (simp_all add: frame_law_def)

end
