(* ===== verification/Url_Repository.thy ===== *)
theory Url_Repository
  imports Url_Model
begin

text \<open>
  \<^verbatim>\<open>internal/repository/url_repository.go\<close>: the PostgreSQL repository, and the contract
  of the Go interface \<^verbatim>\<open>URLRepositoryInterface\<close> as a locale. The Go interface is a record
  of its three methods; the contract says what they do to the rows of table \<open>urls\<close>. The service
  layer relies on the contract alone; this theory shows that the PostgreSQL repository meets it,
  theory \<open>Cached_Repository\<close> that the cached one does.
\<close>

section \<open>Definitions\<close>

text \<open>
  \<^verbatim>\<open>Create\<close> writes the generated columns back through the pointer it is given, so it also
  returns the updated URL.
\<close>

record 'x repository =
  GetByCode :: "ctx \<Rightarrow> string \<Rightarrow> ('x world, repo_err + url) go"
  Create :: "ctx \<Rightarrow> url \<Rightarrow> ('x world, repo_err option \<times> url) go"
  Delete :: "ctx \<Rightarrow> string \<Rightarrow> ('x world, repo_err option) go"

definition URLRepository_Create :: "'x env \<Rightarrow> ctx \<Rightarrow> url \<Rightarrow> ('x world, repo_err option \<times> url) go" where
  "URLRepository_Create E ctx u =
     go_bind (call (pg_insert E ctx (ID u) (ShortCode u) (OriginalURL u) (ExpiresAt u)))
       (\<lambda>res. case res of
          Inl e \<Rightarrow> go_ret (Some (if e = PgError ''23505'' then ErrCodeConflict else DbError e), u)
        | Inr (i, t) \<Rightarrow> go_ret (None, u\<lparr>ID := i, CreatedAt := t\<rparr>))"

text \<open>The query names five columns; the click count keeps its zero value.\<close>

definition url_of_row :: "url_row \<Rightarrow> url" where
  "url_of_row row =
     \<lparr>ID = row_id row, ShortCode = row_short_code row, OriginalURL = row_original_url row,
      CreatedAt = row_created_at row, ExpiresAt = row_expires_at row, ClickCount = 0\<rparr>"

definition URLRepository_GetByCode :: "'x env \<Rightarrow> ctx \<Rightarrow> string \<Rightarrow> ('x world, repo_err + url) go" where
  "URLRepository_GetByCode E ctx code =
     go_bind (call (pg_select E ctx code))
       (\<lambda>res. case res of
          Inl e \<Rightarrow> go_ret (Inl (if e = ErrNoRows then ErrNotFound else DbError e))
        | Inr row \<Rightarrow> go_ret (Inr (url_of_row row)))"

definition URLRepository_Delete :: "'x env \<Rightarrow> ctx \<Rightarrow> string \<Rightarrow> ('x world, repo_err option) go" where
  "URLRepository_Delete E ctx code =
     go_bind (call (pg_delete E ctx code))
       (\<lambda>res. case res of
          Inl e \<Rightarrow> go_ret (Some (DbError e))
        | Inr n \<Rightarrow> go_ret (if n = 0 then Some ErrNotFound else None))"

definition URLRepository :: "'x env \<Rightarrow> 'x repository" where
  "URLRepository E =
     \<lparr>GetByCode = URLRepository_GetByCode E, Create = URLRepository_Create E,
      Delete = URLRepository_Delete E\<rparr>"

section \<open>The repository contract\<close>

text \<open>
  A URL stands for a row: all selected columns agree, the expiry up to the resolution the database
  stores, and there is no click count.
\<close>

definition url_matches :: "url \<Rightarrow> url_row \<Rightarrow> bool" where
  "url_matches u row =
     (ID u = row_id row \<and> ShortCode u = row_short_code row \<and> OriginalURL u = row_original_url row
      \<and> CreatedAt u = row_created_at row \<and> map_option pg_micros (ExpiresAt u) = row_expires_at row
      \<and> ClickCount u = 0)"

lemma url_matches_of_row: "row_valid code row \<Longrightarrow> url_matches (url_of_row row) row"
  by (simp add: url_matches_def url_of_row_def row_valid_def)

text \<open>What each method may answer, given the rows before and after.\<close>

definition get_result :: "url_row option \<Rightarrow> repo_err + url \<Rightarrow> bool" where
  "get_result found res =
     (case res of
        Inr u \<Rightarrow> (\<exists>row. found = Some row \<and> url_matches u row)
      | Inl e \<Rightarrow> e \<noteq> ErrCodeConflict \<and> (e = ErrNotFound \<longrightarrow> found = None))"

definition create_result :: "url \<Rightarrow> (string \<rightharpoonup> url_row) \<Rightarrow> (string \<rightharpoonup> url_row) \<Rightarrow> repo_err option \<times> url \<Rightarrow> bool" where
  "create_result u m m' res =
     (case res of
        (None, u') \<Rightarrow> m (ShortCode u) = None
          \<and> (\<exists>row. m' = m(ShortCode u \<mapsto> row) \<and> url_matches u' row)
          \<and> ShortCode u' = ShortCode u \<and> OriginalURL u' = OriginalURL u \<and> ExpiresAt u' = ExpiresAt u
      | (Some e, u') \<Rightarrow> m' = m \<and> e \<noteq> ErrNotFound)"

definition delete_result :: "string \<Rightarrow> (string \<rightharpoonup> url_row) \<Rightarrow> (string \<rightharpoonup> url_row) \<Rightarrow> repo_err option \<Rightarrow> bool" where
  "delete_result code m m' res =
     (case res of
        None \<Rightarrow> m code \<noteq> None \<and> m' = m(code := None)
      | Some e \<Rightarrow> m' = m \<and> e \<noteq> ErrCodeConflict \<and> (e = ErrNotFound \<longrightarrow> m code = None))"

text \<open>
  The contract: in a state that satisfies the invariant \<open>I\<close>, every method returns (it does not
  panic), keeps the invariant and treats the rows as specified. \<open>ok\<close> is what the implementation
  asks of a URL to be created.
\<close>

locale url_repository =
  fixes R :: "'x repository" and V :: "'x view" and I :: "'x world \<Rightarrow> bool" and ok :: "url \<Rightarrow> bool"
  assumes get_spec: "I w \<Longrightarrow>
      wp (GetByCode R ctx code)
        (\<lambda>res w'. I w' \<and> rows V (ext w') = rows V (ext w) \<and> get_result (rows V (ext w) code) res) w"
    and create_spec: "I w \<Longrightarrow> ok u \<Longrightarrow> ClickCount u = 0 \<Longrightarrow>
      wp (Create R ctx u)
        (\<lambda>res w'. I w' \<and> create_result u (rows V (ext w)) (rows V (ext w')) res) w"
    and delete_spec: "I w \<Longrightarrow>
      wp (Delete R ctx code)
        (\<lambda>res w'. I w' \<and> delete_result code (rows V (ext w)) (rows V (ext w')) res) w"

text \<open>
  The abstract store: sequences of operations and the answers a map of rows allows.
\<close>

datatype repo_op = OpGet ctx string | OpCreate ctx url | OpDelete ctx string

datatype repo_res = ResGet "repo_err + url" | ResCreate "repo_err option \<times> url" | ResDelete "repo_err option"

inductive store_trace ::
  "(string \<rightharpoonup> url_row) \<Rightarrow> repo_op list \<Rightarrow> repo_res list \<Rightarrow> (string \<rightharpoonup> url_row) \<Rightarrow> bool" where
  finish: "store_trace m [] [] m"
| get: "get_result (m code) res \<Longrightarrow> store_trace m ops rs m' \<Longrightarrow>
    store_trace m (OpGet ctx code # ops) (ResGet res # rs) m'"
| create: "create_result u m m1 res \<Longrightarrow> store_trace m1 ops rs m' \<Longrightarrow>
    store_trace m (OpCreate ctx u # ops) (ResCreate res # rs) m'"
| delete: "delete_result code m m1 res \<Longrightarrow> store_trace m1 ops rs m' \<Longrightarrow>
    store_trace m (OpDelete ctx code # ops) (ResDelete res # rs) m'"

inductive_cases store_trace_getE: "store_trace m (OpGet ctx code # ops) rs m'"
inductive_cases store_trace_createE: "store_trace m (OpCreate ctx u # ops) rs m'"
inductive_cases store_trace_deleteE: "store_trace m (OpDelete ctx code # ops) rs m'"
inductive_cases store_trace_doneE: "store_trace m [] rs m'"

fun run_op :: "'x repository \<Rightarrow> repo_op \<Rightarrow> ('x world, repo_res) go" where
  "run_op R (OpGet ctx code) = go_bind (GetByCode R ctx code) (\<lambda>res. go_ret (ResGet res))"
| "run_op R (OpCreate ctx u) = go_bind (Create R ctx u) (\<lambda>res. go_ret (ResCreate res))"
| "run_op R (OpDelete ctx code) = go_bind (Delete R ctx code) (\<lambda>res. go_ret (ResDelete res))"

fun run_ops :: "'x repository \<Rightarrow> repo_op list \<Rightarrow> ('x world, repo_res list) go" where
  "run_ops R [] = go_ret []"
| "run_ops R (op # ops) =
     go_bind (run_op R op) (\<lambda>res. go_bind (run_ops R ops) (\<lambda>rs. go_ret (res # rs)))"

definition op_ok :: "(url \<Rightarrow> bool) \<Rightarrow> repo_op \<Rightarrow> bool" where
  "op_ok ok op = (case op of OpCreate ctx u \<Rightarrow> ok u \<and> ClickCount u = 0 | _ \<Rightarrow> True)"

context url_repository
begin

text \<open>One operation is one step of the store, whatever comes after.\<close>

lemma run_op_step:
  assumes "I w" and "op_ok ok op"
  shows "wp (run_op R op)
    (\<lambda>res w'. I w' \<and> (\<forall>ops rs m'. store_trace (rows V (ext w')) ops rs m' \<longrightarrow>
       store_trace (rows V (ext w)) (op # ops) (res # rs) m')) w"
proof (cases op)
  case (OpGet ctx code)
  then show ?thesis
    by (auto simp: wp_simps intro!: wp_mono [OF get_spec [OF assms(1)]] store_trace.get)
next
  case (OpCreate ctx u)
  with assms(2) show ?thesis
    by (auto simp: wp_simps op_ok_def intro!: wp_mono [OF create_spec [OF assms(1)]] store_trace.create)
next
  case (OpDelete ctx code)
  then show ?thesis
    by (auto simp: wp_simps intro!: wp_mono [OF delete_spec [OF assms(1)]] store_trace.delete)
qed

lemma run_ops_refines:
  assumes "I w" and "list_all (op_ok ok) ops"
  shows "wp (run_ops R ops) (\<lambda>rs w'. I w' \<and> store_trace (rows V (ext w)) ops rs (rows V (ext w'))) w"
  using assms
proof (induction ops arbitrary: w)
  case Nil
  then show ?case by (simp add: wp_simps store_trace.finish)
next
  case (Cons op ops)
  show ?case
    unfolding run_ops.simps wp_bind
  proof (rule wp_mono [OF run_op_step [OF Cons.prems(1)]])
    show "op_ok ok op" using Cons.prems(2) by simp
    fix res w1
    assume "I w1 \<and> (\<forall>ops rs m'. store_trace (rows V (ext w1)) ops rs m' \<longrightarrow>
       store_trace (rows V (ext w)) (op # ops) (res # rs) m')"
    with Cons show "wp (run_ops R ops) (\<lambda>rs. wp (go_ret (res # rs))
        (\<lambda>rs w'. I w' \<and> store_trace (rows V (ext w)) (op # ops) rs (rows V (ext w')))) w1"
      by (intro wp_mono [OF Cons.IH]) (auto simp: wp_simps)
  qed
qed

end

text \<open>With a reachable database the contract is tight: no answer but the ones the rows justify.\<close>

locale available_repository = url_repository +
  assumes get_avail: "I w \<Longrightarrow>
      wp (GetByCode R ctx code)
        (\<lambda>res w'. if rows V (ext w) code = None then res = Inl ErrNotFound else \<not> isl res) w"
    and create_conflict: "I w \<Longrightarrow> ok u \<Longrightarrow> ClickCount u = 0 \<Longrightarrow> rows V (ext w) (ShortCode u) \<noteq> None \<Longrightarrow>
      wp (Create R ctx u) (\<lambda>res w'. fst res = Some ErrCodeConflict) w"
    and delete_avail: "I w \<Longrightarrow>
      wp (Delete R ctx code)
        (\<lambda>res w'. res = (if rows V (ext w) code = None then Some ErrNotFound else None)) w"

section \<open>The PostgreSQL repository meets it\<close>

lemma repository_simps [simp]:
  "GetByCode (URLRepository E) = URLRepository_GetByCode E"
  "Create (URLRepository E) = URLRepository_Create E"
  "Delete (URLRepository E) = URLRepository_Delete E"
  by (simp_all add: URLRepository_def)

text \<open>The database methods touch the Redis entries not at all (but some may expire meanwhile).\<close>

lemma db_get_wp:
  assumes "services_ok E V"
  shows "wp (URLRepository_GetByCode E ctx code)
     (\<lambda>res w'. (\<exists>x. w' = w\<lparr>ext := x\<rparr>) \<and> keeps V (ext w) (ext w') \<and> get_result (rows V (ext w) code) res
        \<and> (\<forall>u. res = Inr u \<longrightarrow> (\<exists>row. u = url_of_row row \<and> row_valid code row))) w"
proof -
  obtain res x' where sel: "pg_select E ctx code (ext w) = (res, x')" by force
  from services_okD(2) [OF assms] sel
  have "keeps V (ext w) x'" and "case res of Inr row \<Rightarrow> rows V (ext w) code = Some row \<and> row_valid code row
      | Inl e \<Rightarrow> (e = ErrNoRows \<longrightarrow> rows V (ext w) code = None)"
    unfolding pg_select_law_def by blast+
  then show ?thesis
    by (auto simp: URLRepository_GetByCode_def wp_simps sel get_result_def url_matches_of_row
        split: sum.splits)
qed

lemma db_create_wp:
  assumes "services_ok E V" and "ClickCount u = 0"
  shows "wp (URLRepository_Create E ctx u)
     (\<lambda>res w'. (\<exists>x. w' = w\<lparr>ext := x\<rparr>) \<and> entries_shrink V (ext w) (ext w')
        \<and> create_result u (rows V (ext w)) (rows V (ext w')) res
        \<and> (fst res = None \<longrightarrow> valid_utf8 (ShortCode u) \<and> valid_utf8 (OriginalURL u)
             \<and> json_time_ok (CreatedAt (snd res)))) w"
proof -
  obtain res x' where ins: "pg_insert E ctx (ID u) (ShortCode u) (OriginalURL u) (ExpiresAt u) (ext w) = (res, x')"
    by force
  from services_okD(1) [OF assms(1)] ins
  have "entries_shrink V (ext w) x'" and "case res of
      Inr (id', t) \<Rightarrow> id' = ID u \<and> rows V (ext w) (ShortCode u) = None \<and> valid_utf8 (ShortCode u)
        \<and> valid_utf8 (OriginalURL u) \<and> json_time_ok t
        \<and> rows V x' = (rows V (ext w))(ShortCode u \<mapsto> inserted_row (ID u) (ShortCode u) (OriginalURL u) t (ExpiresAt u))
    | Inl e \<Rightarrow> rows V x' = rows V (ext w)"
    unfolding pg_insert_law_def by blast+
  with assms(2) show ?thesis
    by (auto simp: URLRepository_Create_def wp_simps ins create_result_def url_matches_def inserted_row_def
        split: sum.splits)
qed

lemma db_delete_wp:
  assumes "services_ok E V"
  shows "wp (URLRepository_Delete E ctx code)
     (\<lambda>res w'. (\<exists>x. w' = w\<lparr>ext := x\<rparr>) \<and> entries_shrink V (ext w) (ext w')
        \<and> delete_result code (rows V (ext w)) (rows V (ext w')) res) w"
proof -
  obtain res x' where del: "pg_delete E ctx code (ext w) = (res, x')" by force
  from services_okD(3) [OF assms] del
  have "entries_shrink V (ext w) x'" and "case res of
      Inr n \<Rightarrow> n = (if rows V (ext w) code = None then 0 else 1) \<and> rows V x' = (rows V (ext w))(code := None)
    | Inl e \<Rightarrow> rows V x' = rows V (ext w)"
    unfolding pg_delete_law_def by blast+
  then show ?thesis
    by (auto simp: URLRepository_Delete_def wp_simps del delete_result_def fun_upd_idem
        split: sum.splits if_splits)
qed

interpretation db_repo: url_repository "URLRepository E" V "\<lambda>w. services_ok E V" "\<lambda>u. True" for E V
proof (unfold_locales, goal_cases)
  case (1 w ctx code)
  show ?case
    by (simp only: repository_simps, rule wp_mono [OF db_get_wp [OF 1]]) (auto simp: 1 keeps_def)
next
  case (2 w u ctx)
  show ?case
    by (simp only: repository_simps, rule wp_mono [OF db_create_wp [OF 2(1,3)]]) (auto simp: 2)
next
  case (3 w ctx code)
  show ?case
    by (simp only: repository_simps, rule wp_mono [OF db_delete_wp [OF 3]]) (auto simp: 3)
qed

text \<open>A reachable database answers definitely.\<close>

lemma db_get_avail:
  assumes "pg_up E V"
  shows "wp (URLRepository_GetByCode E ctx code)
    (\<lambda>res w'. if rows V (ext w) code = None then res = Inl ErrNotFound else \<not> isl res) w"
proof -
  from assms have "rows V (ext w) code = None \<Longrightarrow> fst (pg_select E ctx code (ext w)) = Inl ErrNoRows"
    and "rows V (ext w) code \<noteq> None \<Longrightarrow> \<not> isl (fst (pg_select E ctx code (ext w)))"
    unfolding pg_up_def by blast+
  then show ?thesis
    by (auto simp: URLRepository_GetByCode_def wp_simps split: prod.splits sum.splits)
qed

lemma db_create_conflict:
  assumes "pg_up E V" and "rows V (ext w) (ShortCode u) \<noteq> None"
  shows "wp (URLRepository_Create E ctx u) (\<lambda>res w'. fst res = Some ErrCodeConflict) w"
proof -
  from assms have "fst (pg_insert E ctx (ID u) (ShortCode u) (OriginalURL u) (ExpiresAt u) (ext w))
      = Inl (PgError ''23505'')"
    unfolding pg_up_def by blast
  then show ?thesis
    by (auto simp: URLRepository_Create_def wp_simps split: prod.splits sum.splits)
qed

lemma db_delete_avail:
  assumes "pg_up E V" and "services_ok E V"
  shows "wp (URLRepository_Delete E ctx code)
    (\<lambda>res w'. res = (if rows V (ext w) code = None then Some ErrNotFound else None)) w"
proof -
  obtain res x' where del: "pg_delete E ctx code (ext w) = (res, x')" by force
  have "\<not> isl res" using assms(1) del unfolding pg_up_def by (metis fst_conv)
  moreover have "case res of Inr n \<Rightarrow> n = (if rows V (ext w) code = None then 0 else 1) | _ \<Rightarrow> True"
    using services_okD(3) [OF assms(2)] del unfolding pg_delete_law_def by (fastforce split: sum.splits)
  ultimately show ?thesis
    by (auto simp: URLRepository_Delete_def wp_simps del split: sum.splits if_splits)
qed

interpretation db_repo_up:
  available_repository "URLRepository E" V "\<lambda>w. services_ok E V \<and> pg_up E V" "\<lambda>u. True" for E V
proof (unfold_locales, goal_cases)
  case (1 w ctx code)
  then show ?case using db_repo.get_spec [where E = E and V = V and w = w and code = code and ctx = ctx] by (auto elim: wp_mono)
next
  case (2 w u ctx)
  then show ?case using db_repo.create_spec [where E = E and V = V and u = u and w = w and ctx = ctx] by (auto elim: wp_mono)
next
  case (3 w ctx code)
  then show ?case using db_repo.delete_spec [where E = E and V = V and w = w and code = code and ctx = ctx] by (auto elim: wp_mono)
qed (auto simp: db_get_avail db_delete_avail intro: db_create_conflict)

end
