(* ===== verification/Sha256.thy ===== *)
theory Sha256
  imports Prelude
begin

text \<open>
  The two hash functions of the sources, \<^verbatim>\<open>hashKey\<close> (ring positions) and
  \<^verbatim>\<open>HashURL\<close> (short codes), take the leading bytes of a SHA-256 digest. This theory
  holds \<^verbatim>\<open>crypto/sha256\<close> as FIPS 180-4 specifies it, on 32-bit words, and the big-endian
  readers of \<^verbatim>\<open>encoding/binary\<close>. No theorem of the development relies on a particular
  digest: what is used is that the functions are total, deterministic and of fixed width.
\<close>

unbundle bit_operations_syntax

text \<open>
  The constants are the first 32 bits of the fractional parts of the cube roots (round constants)
  and square roots (initial state) of the first primes, computed here as integer roots.
\<close>

fun root_bits :: "nat \<Rightarrow> nat \<Rightarrow> nat \<Rightarrow> nat \<Rightarrow> nat" where
  "root_bits k n 0 r = r"
| "root_bits k n (Suc b) r =
     (if (r + 2 ^ b) ^ k \<le> n then root_bits k n b (r + 2 ^ b) else root_bits k n b r)"

definition primes_below :: "nat \<Rightarrow> nat list" where
  "primes_below m = filter (\<lambda>p. list_all (\<lambda>d. p mod d \<noteq> 0) [2..<p]) [2..<m]"

definition sha_K :: "32 word list" where
  "sha_K = map (\<lambda>p. word_of_nat (root_bits 3 (p * 2 ^ 96) 36 0)) (primes_below 312)"

definition sha_H0 :: "32 word list" where
  "sha_H0 = map (\<lambda>p. word_of_nat (root_bits 2 (p * 2 ^ 64) 36 0)) [2, 3, 5, 7, 11, 13, 17, 19]"

definition rotr32 :: "nat \<Rightarrow> 32 word \<Rightarrow> 32 word" where
  "rotr32 n x = drop_bit n x OR push_bit (32 - n) x"

definition small_sigma0 :: "32 word \<Rightarrow> 32 word" where
  "small_sigma0 x = rotr32 7 x XOR rotr32 18 x XOR drop_bit 3 x"

definition small_sigma1 :: "32 word \<Rightarrow> 32 word" where
  "small_sigma1 x = rotr32 17 x XOR rotr32 19 x XOR drop_bit 10 x"

definition big_sigma0 :: "32 word \<Rightarrow> 32 word" where
  "big_sigma0 x = rotr32 2 x XOR rotr32 13 x XOR rotr32 22 x"

definition big_sigma1 :: "32 word \<Rightarrow> 32 word" where
  "big_sigma1 x = rotr32 6 x XOR rotr32 11 x XOR rotr32 25 x"

definition choose32 :: "32 word \<Rightarrow> 32 word \<Rightarrow> 32 word \<Rightarrow> 32 word" where
  "choose32 e f g = (e AND f) XOR (NOT e AND g)"

definition majority32 :: "32 word \<Rightarrow> 32 word \<Rightarrow> 32 word \<Rightarrow> 32 word" where
  "majority32 a b c = (a AND b) XOR (a AND c) XOR (b AND c)"

text \<open>The message schedule: sixteen words extended to sixty-four.\<close>

fun schedule :: "nat \<Rightarrow> 32 word list \<Rightarrow> 32 word list" where
  "schedule 0 ws = ws"
| "schedule (Suc n) ws =
     (let t = length ws
      in schedule n (ws @ [small_sigma1 (ws ! (t - 2)) + ws ! (t - 7)
                           + small_sigma0 (ws ! (t - 15)) + ws ! (t - 16)]))"

definition sha_round :: "32 word \<times> 32 word \<Rightarrow> 32 word list \<Rightarrow> 32 word list" where
  "sha_round kw hs =
     (let a = hs ! 0; b = hs ! 1; c = hs ! 2; d = hs ! 3;
          e = hs ! 4; f = hs ! 5; g = hs ! 6; h = hs ! 7;
          t1 = h + big_sigma1 e + choose32 e f g + fst kw + snd kw;
          t2 = big_sigma0 a + majority32 a b c
      in [t1 + t2, a, b, c, d + t1, e, f, g])"

definition sha_block :: "32 word list \<Rightarrow> 32 word list \<Rightarrow> 32 word list" where
  "sha_block blk hs = map2 (+) hs (fold sha_round (zip sha_K (schedule 48 blk)) hs)"

definition byte32 :: "char \<Rightarrow> 32 word" where
  "byte32 c = word_of_nat (of_char c)"

fun be_words :: "string \<Rightarrow> 32 word list" where
  "be_words (a # b # c # d # rest) =
     (push_bit 24 (byte32 a) OR push_bit 16 (byte32 b) OR push_bit 8 (byte32 c) OR byte32 d)
       # be_words rest"
| "be_words _ = []"

text \<open>Padding: a one bit, zeros up to 56 modulo 64 bytes, and the bit length as 64 bits.\<close>

definition sha_pad :: "string \<Rightarrow> string" where
  "sha_pad s =
     (let n = length s; z = (119 - n mod 64) mod 64; bits = 8 * n
      in s @ [char_of (128 :: nat)] @ replicate z (char_of (0 :: nat))
           @ map (\<lambda>i. char_of (bits div 256 ^ (7 - i) mod 256)) [0..<8])"

fun sha_blocks :: "nat \<Rightarrow> 32 word list \<Rightarrow> 32 word list \<Rightarrow> 32 word list" where
  "sha_blocks 0 ws hs = hs"
| "sha_blocks (Suc n) ws hs = sha_blocks n (drop 16 ws) (sha_block (take 16 ws) hs)"

definition word_bytes :: "32 word \<Rightarrow> 8 word list" where
  "word_bytes w = map (\<lambda>n. ucast (drop_bit n w)) [24, 16, 8, 0]"

text \<open>\<^verbatim>\<open>sha256.Sum256\<close>: the 32 bytes of the digest.\<close>

definition Sum256 :: "string \<Rightarrow> 8 word list" where
  "Sum256 s =
     (let ws = be_words (sha_pad s)
      in concat (map word_bytes (sha_blocks (length ws div 16) ws sha_H0)))"

text \<open>\<^verbatim>\<open>binary.BigEndian.Uint32\<close> and \<^verbatim>\<open>Uint64\<close> of a byte slice.\<close>

definition BigEndian_Uint32 :: "8 word list \<Rightarrow> 32 word" where
  "BigEndian_Uint32 bs = fold (\<lambda>b acc. push_bit 8 acc OR ucast b) bs 0"

definition BigEndian_Uint64 :: "8 word list \<Rightarrow> 64 word" where
  "BigEndian_Uint64 bs = fold (\<lambda>b acc. push_bit 8 acc OR ucast b) bs 0"

lemma length_sha_round: "length (sha_round kw hs) = 8"
  by (simp add: sha_round_def Let_def)

lemma length_fold_sha_round: "length hs = 8 \<Longrightarrow> length (fold sha_round kws hs) = 8"
  by (induction kws arbitrary: hs) (simp_all add: length_sha_round)

lemma length_sha_blocks: "length hs = 8 \<Longrightarrow> length (sha_blocks n ws hs) = 8"
  by (induction n arbitrary: ws hs) (simp_all add: sha_block_def length_fold_sha_round)

lemma length_Sum256: "length (Sum256 s) = 32"
proof -
  have "length (concat (map word_bytes hs)) = 4 * length hs" for hs
    by (induction hs) (simp_all add: word_bytes_def)
  then show ?thesis
    by (simp add: Sum256_def Let_def length_sha_blocks sha_H0_def)
qed

end
