(* ===== verification/Hash_Ring.thy ===== *)
theory Hash_Ring
  imports Sha256 Url_Model "HOL-Library.Multiset"
begin

text \<open>
  \<^verbatim>\<open>internal/cache/ring.go\<close>: the consistent-hash ring that routes cache keys to Redis
  clients. The ring keeps the sorted positions of its virtual nodes and the node that owns each
  position. The lemmas show that the binary search finds the clockwise successor of a key, that
  every ring built by the operations is well formed, and what adding and removing a node does to
  the routing of the other keys.

  A Go map is iterated in an unspecified order; \<open>NewHashRing\<close> takes the clients in the order in
  which the range loop meets them.
\<close>

section \<open>Definitions\<close>

record hash_ring =
  vnodes :: "32 word list"
  nodeMap :: "32 word \<rightharpoonup> string"
  ring_clients :: "string \<rightharpoonup> client"
  replicas :: int

definition hashKey :: "string \<Rightarrow> 32 word" where
  "hashKey key = BigEndian_Uint32 (take 4 (Sum256 key))"

definition vnode_hash :: "string \<Rightarrow> nat \<Rightarrow> 32 word" where
  "vnode_hash name i = hashKey (name @ '',#'' @ Itoa (int i))"

fun addVnodes_loop :: "string \<Rightarrow> nat list \<Rightarrow> hash_ring \<Rightarrow> hash_ring" where
  "addVnodes_loop name [] r = r"
| "addVnodes_loop name (i # is) r =
     (let h = vnode_hash name i
      in addVnodes_loop name is (r\<lparr>vnodes := vnodes r @ [h], nodeMap := (nodeMap r)(h \<mapsto> name)\<rparr>))"

definition addVnodes :: "hash_ring \<Rightarrow> string \<Rightarrow> hash_ring" where
  "addVnodes r name = addVnodes_loop name [0..<nat (replicas r)] r"

fun new_ring_loop :: "(string \<times> client) list \<Rightarrow> hash_ring \<Rightarrow> hash_ring" where
  "new_ring_loop [] r = r"
| "new_ring_loop ((name, client) # cs) r =
     new_ring_loop cs (addVnodes (r\<lparr>ring_clients := (ring_clients r)(name \<mapsto> client)\<rparr>) name)"

definition NewHashRing :: "(string \<times> client) list \<Rightarrow> int \<Rightarrow> hash_ring" where
  "NewHashRing clients n =
     (let r = new_ring_loop clients
                \<lparr>vnodes = [], nodeMap = Map.empty, ring_clients = Map.empty, replicas = n\<rparr>
      in r\<lparr>vnodes := sort (vnodes r)\<rparr>)"

function findIndex_loop :: "32 word list \<Rightarrow> 32 word \<Rightarrow> nat \<Rightarrow> nat \<Rightarrow> nat" where
  "findIndex_loop vs h l r =
     (if l < r then
        let m = l + (r - l) div 2 in
        if vs ! m < h then findIndex_loop vs h (m + 1) r
        else if vs ! m > h then findIndex_loop vs h l m
        else m
      else l)"
  by pat_completeness auto
termination
  by (relation "measure (\<lambda>(vs, h, l, r). r - l)") auto

declare findIndex_loop.simps [simp del]

definition findIndex :: "32 word list \<Rightarrow> 32 word \<Rightarrow> nat" where
  "findIndex vs h = findIndex_loop vs h 0 (length vs)"

text \<open>A missing map key reads as the empty string.\<close>

definition nodeFor :: "hash_ring \<Rightarrow> string \<Rightarrow> string" where
  "nodeFor r key =
     (if vnodes r = [] then ''''
      else
        let h = hashKey key;
            idx = findIndex (vnodes r) h;
            idx' = (if idx = length (vnodes r) then 0 else idx)
        in (case nodeMap r (vnodes r ! idx') of Some name \<Rightarrow> name | None \<Rightarrow> ''''))"

definition NodeFor :: "hash_ring \<Rightarrow> string \<Rightarrow> string" where
  "NodeFor r key = nodeFor r key"

text \<open>\<open>None\<close> is the nil client.\<close>

definition ClientFor :: "hash_ring \<Rightarrow> string \<Rightarrow> client option" where
  "ClientFor r key =
     (let name = nodeFor r key in if name = '''' then None else ring_clients r name)"

text \<open>
  The set of hashes to remove is built first; allocating the filtered slice with a negative
  capacity panics, before anything is changed.
\<close>

definition node_hashes :: "hash_ring \<Rightarrow> string \<Rightarrow> 32 word set" where
  "node_hashes r name = set (map (vnode_hash name) [0..<nat (replicas r)])"

definition Remove :: "hash_ring \<Rightarrow> string \<Rightarrow> hash_ring outcome" where
  "Remove r name =
     (if int (length (vnodes r)) - replicas r < 0 then Panic ''makeslice: cap out of range''
      else
        let toRemove = node_hashes r name in
        Ret (r\<lparr>vnodes := filter (\<lambda>h. h \<notin> toRemove) (vnodes r),
               nodeMap := (\<lambda>h. if h \<in> toRemove then None else nodeMap r h),
               ring_clients := (ring_clients r)(name := None)\<rparr>))"

definition Add :: "hash_ring \<Rightarrow> string \<Rightarrow> client \<Rightarrow> hash_ring" where
  "Add r name client =
     (if ring_clients r name \<noteq> None then r
      else
        let r1 = r\<lparr>ring_clients := (ring_clients r)(name \<mapsto> client)\<rparr>;
            r2 = addVnodes r1 name
        in r2\<lparr>vnodes := sort (vnodes r2)\<rparr>)"

text \<open>\<open>order\<close> is the order in which the range loop meets the clients.\<close>

fun ring_Ping :: "'x env \<Rightarrow> ctx \<Rightarrow> client list \<Rightarrow> ('x world, redis_err option) go" where
  "ring_Ping E ctx [] = go_ret None"
| "ring_Ping E ctx (c # order) =
     go_bind (call (redis_Ping E ctx c))
       (\<lambda>e. case e of Some err \<Rightarrow> go_ret (Some err) | None \<Rightarrow> ring_Ping E ctx order)"

section \<open>The clockwise successor\<close>

definition successor :: "'a::linorder set \<Rightarrow> 'a \<Rightarrow> 'a" where
  "successor S h = (if \<exists>v\<in>S. h \<le> v then Min {v \<in> S. h \<le> v} else Min S)"

lemma successor_in: "finite S \<Longrightarrow> S \<noteq> {} \<Longrightarrow> successor S h \<in> S"
proof -
  assume S: "finite S" "S \<noteq> {}"
  show ?thesis
  proof (cases "\<exists>v\<in>S. h \<le> v")
    case True
    then have "Min {v \<in> S. h \<le> v} \<in> {v \<in> S. h \<le> v}" using S by (intro Min_in) auto
    with True show ?thesis by (simp add: successor_def)
  next
    case False
    with S show ?thesis by (auto simp: successor_def)
  qed
qed

text \<open>A successor that survives in a subset is the successor there.\<close>

lemma successor_subset:
  assumes "finite S" and "T \<subseteq> S" and "successor S h \<in> T"
  shows "successor T h = successor S h"
proof (cases "\<exists>v\<in>S. h \<le> v")
  case True
  let ?A = "{v \<in> S. h \<le> v}" and ?B = "{v \<in> T. h \<le> v}"
  have s: "successor S h = Min ?A" using True by (simp add: successor_def)
  have A: "finite ?A" "?A \<noteq> {}" using assms(1) True by auto
  then have m: "Min ?A \<in> ?B" using assms(3) s Min_in [OF A] by auto
  moreover have "finite ?B" using assms(1,2) finite_subset by fastforce
  moreover have "?B \<subseteq> ?A" using assms(2) by auto
  ultimately have "Min ?B = Min ?A"
    using A by (metis Min_antimono Min_le antisym empty_iff)
  with m s show ?thesis by (auto simp: successor_def)
next
  case False
  with assms have "Min S \<in> T" and "\<not> (\<exists>v\<in>T. h \<le> v)" by (auto simp: successor_def)
  moreover have "finite T" using assms(1,2) finite_subset by blast
  ultimately have "Min T = Min S"
    using assms(1,2) by (metis Min_antimono Min_le antisym empty_iff)
  with False \<open>\<not> (\<exists>v\<in>T. h \<le> v)\<close> show ?thesis by (simp add: successor_def)
qed

text \<open>
  What the ring needs of its search: on a sorted slice, the position of the least element not
  below the key, or the length when there is none.
\<close>

locale successor_search =
  fixes find :: "'a::linorder list \<Rightarrow> 'a \<Rightarrow> nat"
  assumes find_hit: "sorted vs \<Longrightarrow> v \<in> set vs \<Longrightarrow> h \<le> v \<Longrightarrow>
      find vs h < length vs \<and> vs ! find vs h = Min {v \<in> set vs. h \<le> v}"
    and find_miss: "sorted vs \<Longrightarrow> \<forall>v\<in>set vs. v < h \<Longrightarrow> find vs h = length vs"
begin

lemma find_le: "sorted vs \<Longrightarrow> find vs h \<le> length vs"
  using find_hit find_miss by (metis linorder_not_le nle_le order_less_imp_le)

lemma find_wrap:
  assumes "sorted vs" and "vs \<noteq> []"
  shows "vs ! (if find vs h = length vs then 0 else find vs h) = successor (set vs) h"
proof (cases "\<exists>v\<in>set vs. h \<le> v")
  case True
  then show ?thesis using find_hit [OF assms(1)] by (fastforce simp: successor_def)
next
  case False
  then have "find vs h = length vs" using find_miss [OF assms(1)] by force
  moreover from assms have "vs ! 0 = Min (set vs)"
    by (cases vs) (auto intro!: Min_eqI [symmetric])
  ultimately show ?thesis using False by (simp add: successor_def)
qed

end

text \<open>
  The binary search is such a search. Where its bounds meet, everything before is below the key and
  everything from there on is not.
\<close>

lemma split_point:
  assumes "sorted vs" and "l \<le> length vs" and "\<forall>i<l. vs ! i < h" and "\<forall>i<length vs. l \<le> i \<longrightarrow> h < vs ! i"
  shows "(l < length vs \<and> h \<le> vs ! l \<and> (\<forall>v\<in>set vs. h \<le> v \<longrightarrow> vs ! l \<le> v))
    \<or> (l = length vs \<and> (\<forall>v\<in>set vs. v < h))"
proof (cases "l < length vs")
  case True
  have "vs ! l \<le> v" if "v \<in> set vs" "h \<le> v" for v
  proof -
    from that(1) obtain i where i: "i < length vs" "v = vs ! i" by (auto simp: in_set_conv_nth)
    with that(2) assms(3) have "l \<le> i" by (metis linorder_not_le)
    with i assms(1) show ?thesis by (simp add: sorted_nth_le)
  qed
  with True assms(4) show ?thesis by (simp add: less_imp_le)
next
  case False
  with assms(2,3) show ?thesis by (auto simp: in_set_conv_nth)
qed

lemma findIndex_loop_spec:
  assumes "sorted vs" and "l \<le> r" and "r \<le> length vs"
    and "\<forall>i<l. vs ! i < h" and "\<forall>i<length vs. r \<le> i \<longrightarrow> h < vs ! i"
  shows "let k = findIndex_loop vs h l r in
    (k < length vs \<and> h \<le> vs ! k \<and> (\<forall>v\<in>set vs. h \<le> v \<longrightarrow> vs ! k \<le> v))
    \<or> (k = length vs \<and> (\<forall>v\<in>set vs. v < h))"
  using assms
proof (induction vs h l r rule: findIndex_loop.induct)
  case (1 vs h l r)
  show ?case
  proof (cases "l < r")
    case True
    let ?m = "l + (r - l) div 2"
    have m: "l \<le> ?m" "?m < r" using True by auto
    consider (low) "vs ! ?m < h" | (high) "vs ! ?m > h" | (eq) "vs ! ?m = h" by fastforce
    then show ?thesis
    proof cases
      case low
      have below: "vs ! i < h" if "i < ?m + 1" for i
        using that m "1.prems"(1,3) low sorted_nth_le [of vs i ?m] by fastforce
      have "?m + 1 \<le> r" using m by simp
      from "1.IH"(1) [OF True refl low "1.prems"(1) this "1.prems"(3) _ "1.prems"(5)] below
      show ?thesis
        using True low by (simp add: findIndex_loop.simps [of vs h l r] Let_def)
    next
      case high
      have above: "h < vs ! i" if "i < length vs" "?m \<le> i" for i
        using that "1.prems"(1) high sorted_nth_le [of vs ?m i] by fastforce
      have "l \<le> ?m" "?m \<le> length vs" using m "1.prems"(3) by auto
      moreover have nl: "\<not> vs ! ?m < h" using high by simp
      ultimately show ?thesis
        using True high above "1.IH"(2) [OF True refl nl high "1.prems"(1) _ _ "1.prems"(4)]
        by (simp add: findIndex_loop.simps [of vs h l r] Let_def)
    next
      case eq
      then show ?thesis
        using True m "1.prems"(3) by (simp add: findIndex_loop.simps [of vs h l r] Let_def)
    qed
  next
    case False
    with "1.prems" have lr: "l = r" by simp
    have "findIndex_loop vs h l r = l" using False by (simp add: findIndex_loop.simps [of vs h l r])
    with split_point [of vs l h] "1.prems" lr show ?thesis by (simp add: Let_def)
  qed
qed

lemma findIndex_spec:
  assumes "sorted vs"
  shows "(findIndex vs h < length vs \<and> h \<le> vs ! findIndex vs h
           \<and> (\<forall>v\<in>set vs. h \<le> v \<longrightarrow> vs ! findIndex vs h \<le> v))
    \<or> (findIndex vs h = length vs \<and> (\<forall>v\<in>set vs. v < h))"
  using findIndex_loop_spec [OF assms, of 0 "length vs" h]
  by (simp add: findIndex_def Let_def)

interpretation ring_search: successor_search findIndex
proof unfold_locales
  fix vs :: "32 word list" and v h :: "32 word"
  assume vs: "sorted vs" "v \<in> set vs" "h \<le> v"
  with findIndex_spec [OF vs(1), of h]
  have "findIndex vs h < length vs" "h \<le> vs ! findIndex vs h"
    "\<forall>v\<in>set vs. h \<le> v \<longrightarrow> vs ! findIndex vs h \<le> v"
    by force+
  then show "findIndex vs h < length vs \<and> vs ! findIndex vs h = Min {v \<in> set vs. h \<le> v}"
    by (auto intro!: Min_eqI [symmetric])
next
  fix vs :: "32 word list" and h :: "32 word"
  assume "sorted vs" "\<forall>v\<in>set vs. v < h"
  with findIndex_spec [of vs h] show "findIndex vs h = length vs"
    by (metis linorder_not_le nth_mem)
qed

section \<open>Well-formed rings\<close>

text \<open>
  Positions and owners agree, every owner is a live client, and a node owns only positions that
  its own name hashes to.
\<close>

definition ring_wf :: "hash_ring \<Rightarrow> bool" where
  "ring_wf r =
     (set (vnodes r) = dom (nodeMap r)
      \<and> (\<forall>h n. nodeMap r h = Some n \<longrightarrow> n \<in> dom (ring_clients r) \<and> h \<in> node_hashes r n))"

definition ring_inv :: "hash_ring \<Rightarrow> bool" where
  "ring_inv r = (sorted (vnodes r) \<and> ring_wf r)"

lemma addVnodes_loop_eq:
  "addVnodes_loop name is r =
     r\<lparr>vnodes := vnodes r @ map (vnode_hash name) is,
       nodeMap := (\<lambda>h. if h \<in> vnode_hash name ` set is then Some name else nodeMap r h)\<rparr>"
  by (induction "is" arbitrary: r) (auto simp: Let_def fun_eq_iff)

lemma addVnodes_eq:
  "addVnodes r name =
     r\<lparr>vnodes := vnodes r @ map (vnode_hash name) [0..<nat (replicas r)],
       nodeMap := (\<lambda>h. if h \<in> node_hashes r name then Some name else nodeMap r h)\<rparr>"
  by (simp add: addVnodes_def addVnodes_loop_eq node_hashes_def)

lemma node_hashes_replicas: "replicas r = replicas r' \<Longrightarrow> node_hashes r = node_hashes r'"
  by (simp add: node_hashes_def fun_eq_iff)

lemma node_hashes_simps [simp]:
  "node_hashes (r\<lparr>vnodes := v\<rparr>) = node_hashes r"
  "node_hashes (r\<lparr>nodeMap := m\<rparr>) = node_hashes r"
  "node_hashes (r\<lparr>ring_clients := c\<rparr>) = node_hashes r"
  by (simp_all add: node_hashes_def fun_eq_iff)

lemma ring_wf_add_client:
  "ring_wf r \<Longrightarrow> ring_wf (r\<lparr>ring_clients := (ring_clients r)(name \<mapsto> c)\<rparr>)"
  by (auto simp: ring_wf_def)

lemma ring_wf_addVnodes:
  assumes "ring_wf r" and "name \<in> dom (ring_clients r)"
  shows "ring_wf (addVnodes r name)"
  using assms by (auto simp: ring_wf_def addVnodes_eq node_hashes_def split: if_splits)

lemma ring_wf_sort: "ring_wf r \<Longrightarrow> ring_wf (r\<lparr>vnodes := sort (vnodes r)\<rparr>)"
  by (auto simp: ring_wf_def)

lemma ring_wf_new_loop: "ring_wf r \<Longrightarrow> ring_wf (new_ring_loop cs r)"
proof (induction cs arbitrary: r)
  case (Cons c cs)
  obtain name client where c: "c = (name, client)" by (cases c)
  let ?r = "r\<lparr>ring_clients := (ring_clients r)(name \<mapsto> client)\<rparr>"
  have "ring_wf (addVnodes ?r name)"
    by (rule ring_wf_addVnodes) (use Cons.prems in \<open>simp_all add: ring_wf_add_client\<close>)
  then show ?case by (simp add: c Cons.IH)
qed simp

lemma NewHashRing_inv: "ring_inv (NewHashRing cs n)"
proof -
  have "ring_wf \<lparr>vnodes = [], nodeMap = Map.empty, ring_clients = Map.empty, replicas = n\<rparr>"
    by (simp add: ring_wf_def)
  then show ?thesis
    by (simp add: NewHashRing_def Let_def ring_inv_def ring_wf_sort ring_wf_new_loop)
qed

lemma Add_inv: "ring_inv r \<Longrightarrow> ring_inv (Add r name c)"
  by (simp add: ring_inv_def Add_def Let_def ring_wf_sort ring_wf_addVnodes ring_wf_add_client)

lemma Remove_inv:
  assumes "ring_inv r" and "Remove r name = Ret r'"
  shows "ring_inv r'"
proof -
  from assms(2) have r': "r' = r\<lparr>vnodes := filter (\<lambda>h. h \<notin> node_hashes r name) (vnodes r),
       nodeMap := (\<lambda>h. if h \<in> node_hashes r name then None else nodeMap r h),
       ring_clients := (ring_clients r)(name := None)\<rparr>"
    by (simp add: Remove_def Let_def split: if_splits)
  from assms(1) show ?thesis
    by (auto simp: r' ring_inv_def ring_wf_def sorted_wrt_filter split: if_splits)
qed

text \<open>The rings a program can build.\<close>

inductive ring_reach :: "hash_ring \<Rightarrow> bool" where
  new: "ring_reach (NewHashRing cs n)"
| add: "ring_reach r \<Longrightarrow> ring_reach (Add r name c)"
| remove: "ring_reach r \<Longrightarrow> Remove r name = Ret r' \<Longrightarrow> ring_reach r'"

lemma ring_reach_inv: "ring_reach r \<Longrightarrow> ring_inv r"
  by (induction rule: ring_reach.induct) (auto intro: NewHashRing_inv Add_inv Remove_inv)

section \<open>Routing\<close>

lemma nodeFor_successor:
  assumes "ring_inv r" and "vnodes r \<noteq> []"
  shows "nodeMap r (successor (set (vnodes r)) (hashKey key)) = Some (nodeFor r key)"
proof -
  let ?s = "successor (set (vnodes r)) (hashKey key)"
  have "?s \<in> set (vnodes r)"
    by (rule successor_in) (use assms(2) in simp_all)
  then have "?s \<in> dom (nodeMap r)"
    using assms(1) unfolding ring_inv_def ring_wf_def by blast
  moreover have "nodeFor r key = (case nodeMap r ?s of Some name \<Rightarrow> name | None \<Rightarrow> '''')"
    using assms ring_search.find_wrap [of "vnodes r" "hashKey key"]
    by (simp add: nodeFor_def Let_def ring_inv_def split: if_splits)
  ultimately show ?thesis by auto
qed

lemma nodeFor_empty: "vnodes r = [] \<Longrightarrow> nodeFor r key = ''''"
  by (simp add: nodeFor_def)

lemma nodeFor_live:
  assumes "ring_inv r" and "vnodes r \<noteq> []"
  shows "nodeFor r key \<in> dom (ring_clients r)"
  using nodeFor_successor [OF assms, of key] assms(1) unfolding ring_inv_def ring_wf_def by blast

lemma Add_fields:
  assumes "ring_clients r name = None"
  shows "set (vnodes (Add r name c)) = set (vnodes r) \<union> node_hashes r name"
    and "nodeMap (Add r name c) = (\<lambda>h. if h \<in> node_hashes r name then Some name else nodeMap r h)"
    and "mset (vnodes (Add r name c)) = mset (vnodes r) + mset (map (vnode_hash name) [0..<nat (replicas r)])"
  using assms by (simp_all add: Add_def Let_def addVnodes_eq node_hashes_def fun_eq_iff)

lemma Remove_eq:
  assumes "Remove r name = Ret r'"
  shows "vnodes r' = filter (\<lambda>h. h \<notin> node_hashes r name) (vnodes r)"
    and "nodeMap r' = (\<lambda>h. if h \<in> node_hashes r name then None else nodeMap r h)"
    and "ring_clients r' = (ring_clients r)(name := None)"
  using assms by (auto simp: Remove_def Let_def split: if_splits)

lemma vnodes_new_loop:
  "mset (vnodes (new_ring_loop cs r))
     = mset (vnodes r) + (\<Sum>c\<in>#mset cs. mset (map (vnode_hash (fst c)) [0..<nat (replicas r)]))"
  by (induction cs arbitrary: r) (auto simp: addVnodes_eq)

lemma replicas_new_loop: "replicas (new_ring_loop cs r) = replicas r"
  by (induction cs arbitrary: r) (auto simp: addVnodes_eq)

lemma NewHashRing_vnodes_mset:
  assumes "mset cs = mset cs'"
  shows "vnodes (NewHashRing cs n) = vnodes (NewHashRing cs' n)"
  unfolding NewHashRing_def Let_def
  by (simp, rule properties_for_sort) (simp_all add: vnodes_new_loop assms)

lemma replicas_NewHashRing: "replicas (NewHashRing cs n) = n"
  by (simp add: NewHashRing_def Let_def replicas_new_loop)

lemma ring_clients_NewHashRing: "dom (ring_clients (NewHashRing cs n)) = fst ` set cs"
proof -
  have "dom (ring_clients (new_ring_loop cs r)) = dom (ring_clients r) \<union> fst ` set cs" for r
  proof (induction cs arbitrary: r)
    case (Cons c cs)
    then show ?case by (cases c) (simp add: addVnodes_eq, force split: if_splits)
  qed simp
  then show ?thesis by (simp add: NewHashRing_def Let_def)
qed

lemma vnodes_NewHashRing: "0 < n \<Longrightarrow> cs \<noteq> [] \<Longrightarrow> vnodes (NewHashRing cs n) \<noteq> []"
  by (cases cs) (auto simp: NewHashRing_def Let_def vnodes_new_loop addVnodes_eq mset_set_empty_iff simp flip: mset_zero_iff)

section \<open>Properties\<close>

text \<open>
  C20: On a sorted slice of distinct positions the binary search returns the lower bound of the
  key: the number of positions strictly below it, as a linear scan would.
\<close>

theorem findIndex_lower_bound:
  assumes "sorted vs" and "distinct vs"
  shows "findIndex vs h = length (takeWhile (\<lambda>v. v < h) vs)"
proof (cases "findIndex vs h < length vs")
  case True
  let ?k = "findIndex vs h"
  from True findIndex_spec [OF assms(1), of h] have ge: "h \<le> vs ! ?k"
    and least: "\<forall>v\<in>set vs. h \<le> v \<longrightarrow> vs ! ?k \<le> v" by auto
  have "vs ! i < h" if "i < ?k" for i
  proof (rule ccontr)
    assume "\<not> vs ! i < h"
    with least that True have "vs ! ?k \<le> vs ! i" by simp
    with that True assms have "vs ! i = vs ! ?k" by (simp add: sorted_nth_le antisym)
    with that True assms(2) show False by (simp add: nth_eq_iff_index_eq)
  qed
  with True ge have "takeWhile (\<lambda>v. v < h) vs = take ?k vs"
    by (intro takeWhile_eq_take_P_nth) auto
  with True show ?thesis by simp
next
  case False
  with findIndex_spec [OF assms(1), of h]
  have "findIndex vs h = length vs" and "\<forall>v\<in>set vs. v < h" by auto
  then show ?thesis by (simp add: takeWhile_eq_all_conv [THEN iffD2])
qed

theorem findIndex_lower_bound_witness:
  "sorted [10, 20, 30 :: 32 word] \<and> distinct [10, 20, 30 :: 32 word]
   \<and> findIndex [10, 20, 30] 21 = length (takeWhile (\<lambda>v. v < 21) [10, 20, 30 :: 32 word])"
proof -
  have s: "sorted [10, 20, 30 :: 32 word]" and d: "distinct [10, 20, 30 :: 32 word]" by simp_all
  show ?thesis using s d findIndex_lower_bound [OF s d, of 21] by blast
qed

text \<open>
  C5: On every ring that \<^verbatim>\<open>NewHashRing\<close>, \<^verbatim>\<open>Add\<close> and
  \<^verbatim>\<open>Remove\<close> can build, a key belongs to the node that owns the clockwise successor of
  the key's hash among the virtual nodes, and that node has a live client: on a ring with virtual
  nodes and no node of empty name, \<^verbatim>\<open>ClientFor\<close> never returns nil.
\<close>

theorem ring_routes_to_live_client:
  assumes "ring_reach r" and "vnodes r \<noteq> []" and "'''' \<notin> dom (ring_clients r)"
  shows "nodeMap r (successor (set (vnodes r)) (hashKey key)) = Some (NodeFor r key)
    \<and> (\<exists>c. ring_clients r (NodeFor r key) = Some c \<and> ClientFor r key = Some c)"
proof -
  note inv = ring_reach_inv [OF assms(1)]
  from nodeFor_live [OF inv assms(2), of key] obtain c
    where c: "ring_clients r (nodeFor r key) = Some c" by auto
  with assms(3) have "nodeFor r key \<noteq> ''''" by auto
  with c nodeFor_successor [OF inv assms(2)] show ?thesis
    by (simp add: NodeFor_def ClientFor_def Let_def)
qed

theorem ring_routes_to_live_client_witness:
  "let r = NewHashRing [(''n1'', 7)] 2 in
     ring_reach r \<and> vnodes r \<noteq> [] \<and> '''' \<notin> dom (ring_clients r)
     \<and> NodeFor r ''url:abc'' = ''n1'' \<and> ClientFor r ''url:abc'' = Some 7"
proof -
  let ?r = "NewHashRing [(''n1'', 7)] 2"
  have cl: "ring_clients ?r = [''n1'' \<mapsto> 7]" and vn: "vnodes ?r \<noteq> []"
    by (simp_all add: NewHashRing_def Let_def addVnodes_eq upt_rec numeral_2_eq_2)
  have reach: "ring_reach ?r" by (rule ring_reach.new)
  have name: "'''' \<notin> dom (ring_clients ?r)" by (simp add: cl)
  from ring_routes_to_live_client [OF reach vn name, of "''url:abc''"]
  show ?thesis using reach vn name by (auto simp: cl Let_def split: if_splits)
qed



text \<open>
  C19: Consistent hashing, shrinkage: after removing a node no key is routed to it, and a key that
  belonged to another node keeps its node, unless another node's virtual node sits on one of the
  removed positions.
\<close>

theorem Remove_moves_only_removed_keys:
  assumes "ring_reach r" and "Remove r name = Ret r'" and "name \<noteq> ''''"
    and "\<forall>h\<in>node_hashes r name. nodeMap r h \<in> {None, Some name}"
  shows "NodeFor r' key \<noteq> name \<and> (NodeFor r key = name \<or> NodeFor r' key = NodeFor r key)"
proof -
  have inv: "ring_inv r" "ring_inv r'"
    using assms(1,2) by (auto intro: ring_reach_inv ring_reach.remove)
  note r' = Remove_eq [OF assms(2)]
  have gone: "nodeFor r' key \<noteq> name"
  proof (cases "vnodes r' = []")
    case False
    from nodeFor_live [OF inv(2) this, of key] show ?thesis by (auto simp: r')
  qed (use assms(3) in \<open>simp add: nodeFor_empty\<close>)
  moreover have "nodeFor r key = name \<or> nodeFor r' key = nodeFor r key"
  proof (cases "vnodes r = []")
    case False
    let ?s = "successor (set (vnodes r)) (hashKey key)"
    have s: "nodeMap r ?s = Some (nodeFor r key)" by (rule nodeFor_successor [OF inv(1) False])
    show ?thesis
    proof (cases "?s \<in> node_hashes r name")
      case True
      with assms(4) s show ?thesis by auto
    next
      case kept: False
      have "?s \<in> set (vnodes r)" using False by (intro successor_in) auto
      with kept have in': "?s \<in> set (vnodes r')" by (simp add: r')
      then have "successor (set (vnodes r')) (hashKey key) = ?s"
        by (intro successor_subset) (auto simp: r')
      moreover have "vnodes r' \<noteq> []" using in' by auto
      ultimately have "nodeMap r' ?s = Some (nodeFor r' key)"
        using nodeFor_successor [OF inv(2)] by metis
      with s kept show ?thesis by (simp add: r')
    qed
  qed (simp add: r' nodeFor_empty)
  ultimately show ?thesis by (simp add: NodeFor_def)
qed

text \<open>The last node added owns all of its positions, so its removal meets the hypothesis.\<close>

lemma Add_owns_positions:
  "ring_clients r name = None \<Longrightarrow> \<forall>h\<in>node_hashes (Add r name c) name. nodeMap (Add r name c) h = Some name"
  by (simp add: Add_fields Add_def Let_def addVnodes_eq)

lemma Add_Remove_returns:
  assumes "ring_clients r name = None" and "0 \<le> replicas r"
  shows "\<exists>r'. Remove (Add r name c) name = Ret r'"
  using assms by (simp add: Remove_def Add_def Let_def addVnodes_eq)

theorem Remove_moves_only_removed_keys_witness:
  "let r = Add (NewHashRing [(''n1'', 7)] 150) ''n2'' 8 in
     \<exists>r'. ring_reach r \<and> Remove r ''n2'' = Ret r' \<and> NodeFor r' ''url:abc'' \<noteq> ''n2''
          \<and> (NodeFor r ''url:abc'' = ''n2'' \<or> NodeFor r' ''url:abc'' = NodeFor r ''url:abc'')"
proof -
  let ?base = "NewHashRing [(''n1'', 7)] 150" and ?n = "''n2''"
  let ?r = "Add ?base ?n 8"
  have new: "ring_clients ?base ?n = None" "0 \<le> replicas ?base"
    by (simp_all add: NewHashRing_def Let_def addVnodes_eq)
  have reach: "ring_reach ?r" by (intro ring_reach.add ring_reach.new)
  from Add_Remove_returns [OF new] obtain r' where r': "Remove ?r ?n = Ret r'" by blast
  have "\<forall>h\<in>node_hashes ?r ?n. nodeMap ?r h \<in> {None, Some ?n}"
    using Add_owns_positions [OF new(1)] by simp
  from Remove_moves_only_removed_keys [OF reach r' _ this, of "''url:abc''"] reach r'
  show ?thesis by (simp add: Let_def)
qed

text \<open>
  Removing a node that was just added gives back the ring as it was, provided the new node's
  positions were free.
\<close>

theorem Remove_undoes_Add:
  assumes "ring_reach r" and "ring_clients r name = None"
    and "node_hashes r name \<inter> set (vnodes r) = {}" and "0 \<le> replicas r"
  shows "Remove (Add r name c) name = Ret r"
proof -
  let ?new = "map (vnode_hash name) [0..<nat (replicas r)]"
  have inv: "sorted (vnodes r)" "set (vnodes r) = dom (nodeMap r)"
    using ring_reach_inv [OF assms(1)] by (simp_all add: ring_inv_def ring_wf_def)
  have f: "filter (\<lambda>h. h \<notin> node_hashes r name) (sort (vnodes r @ ?new)) = vnodes r"
  proof -
    have "filter (\<lambda>h. h \<notin> node_hashes r name) (sort (vnodes r @ ?new))
            = sort (filter (\<lambda>h. h \<notin> node_hashes r name) (vnodes r @ ?new))"
      by (rule filter_sort)
    also have "filter (\<lambda>h. h \<notin> node_hashes r name) (vnodes r @ ?new) = vnodes r"
      using assms(3) by (auto simp: node_hashes_def filter_id_conv filter_empty_conv)
    finally show ?thesis using inv(1) by (simp add: sorted_sort_id)
  qed
  have m: "(\<lambda>h. if h \<in> node_hashes r name then None
                else if h \<in> node_hashes r name then Some name else nodeMap r h) = nodeMap r"
    using assms(3) inv(2) by (fastforce simp: fun_eq_iff)
  have c: "(ring_clients r)(name := None) = ring_clients r"
    using assms(2) by (simp add: fun_upd_idem)
  show ?thesis
    using assms(2,4) f m c by (simp add: Remove_def Add_def Let_def addVnodes_eq cong: if_cong)
qed

theorem Remove_undoes_Add_witness:
  "ring_reach (NewHashRing [] 150) \<and> Remove (Add (NewHashRing [] 150) ''n1'' 7) ''n1'' = Ret (NewHashRing [] 150)"
proof -
  have r: "ring_reach (NewHashRing [] 150)" by (rule ring_reach.new)
  have "ring_clients (NewHashRing [] 150) ''n1'' = None" "vnodes (NewHashRing [] 150) = []"
    "replicas (NewHashRing [] 150) = 150"
    by (simp_all add: NewHashRing_def)
  then show ?thesis using r Remove_undoes_Add [OF r, of "''n1''" 7] by simp
qed

text \<open>
  The iteration order of the client map matters only through hash collisions: two rings built
  from the same clients in different orders have the same positions, and a key they route to
  different nodes has for successor a position that both nodes' names hash to.
\<close>

theorem NewHashRing_order_irrelevant:
  assumes "mset cs = mset cs'"
  shows "let r = NewHashRing cs n; r' = NewHashRing cs' n in
    vnodes r = vnodes r'
    \<and> (NodeFor r key = NodeFor r' key
       \<or> successor (set (vnodes r)) (hashKey key) \<in> node_hashes r (NodeFor r key) \<inter> node_hashes r (NodeFor r' key))"
proof -
  define r where "r = NewHashRing cs n"
  define r' where "r' = NewHashRing cs' n"
  have v: "vnodes r = vnodes r'"
    unfolding r_def r'_def by (rule NewHashRing_vnodes_mset [OF assms(1)])
  have rep: "node_hashes r = node_hashes r'"
    by (rule node_hashes_replicas) (simp add: r_def r'_def replicas_NewHashRing)
  have inv: "ring_inv r" "ring_inv r'" by (simp_all add: r_def r'_def NewHashRing_inv)
  show ?thesis
    unfolding Let_def r_def [symmetric] r'_def [symmetric]
  proof (cases "vnodes r = []")
    case True
    with v show "vnodes r = vnodes r' \<and> (NodeFor r key = NodeFor r' key
       \<or> successor (set (vnodes r)) (hashKey key) \<in> node_hashes r (NodeFor r key) \<inter> node_hashes r (NodeFor r' key))"
      by (simp add: NodeFor_def nodeFor_empty)
  next
    case False
    with v have "vnodes r' \<noteq> []" by simp
    with False inv have "nodeMap r (successor (set (vnodes r)) (hashKey key)) = Some (nodeFor r key)"
      and "nodeMap r' (successor (set (vnodes r)) (hashKey key)) = Some (nodeFor r' key)"
      using nodeFor_successor v by metis+
    with inv v rep show "vnodes r = vnodes r' \<and> (NodeFor r key = NodeFor r' key
       \<or> successor (set (vnodes r)) (hashKey key) \<in> node_hashes r (NodeFor r key) \<inter> node_hashes r (NodeFor r' key))"
      by (auto simp: NodeFor_def ring_inv_def ring_wf_def)
  qed
qed

theorem NewHashRing_order_irrelevant_witness:
  "mset [(''n1'', 7), (''n2'', 8 :: nat)] = mset [(''n2'', 8), (''n1'', 7)]
   \<and> vnodes (NewHashRing [(''n1'', 7), (''n2'', 8)] 150) = vnodes (NewHashRing [(''n2'', 8), (''n1'', 7)] 150)"
proof -
  have m: "mset [(''n1'', 7), (''n2'', 8 :: nat)] = mset [(''n2'', 8), (''n1'', 7)]" by simp
  show ?thesis using m NewHashRing_order_irrelevant [OF m, of 150] by (simp only: Let_def simp_thms)
qed

text \<open>
  Removing the last node leaves an empty ring, on which lookups return the zero values, and
  any further removal panics: the capacity of the slice it allocates is negative.
\<close>

theorem Remove_last_node_then_panics:
  assumes "ring_reach r" and "dom (ring_clients r) \<subseteq> {name}" and "0 < replicas r"
    and "Remove r name = Ret r'"
  shows "vnodes r' = [] \<and> NodeFor r' key = '''' \<and> ClientFor r' key = None
    \<and> (\<exists>msg. Remove r' other = Panic msg)"
proof -
  have wf: "ring_wf r'"
    using ring_reach_inv [OF ring_reach.remove [OF assms(1,4)]] by (simp add: ring_inv_def)
  have "dom (ring_clients r') = {}" using assms(2) by (auto simp: Remove_eq [OF assms(4)])
  with wf have "dom (nodeMap r') = {}" unfolding ring_wf_def by blast
  with wf have v: "vnodes r' = []" by (simp add: ring_wf_def)
  moreover have "replicas r' = replicas r"
    using assms(4) by (auto simp: Remove_def Let_def split: if_splits)
  ultimately show ?thesis
    using assms(3) by (simp add: NodeFor_def ClientFor_def nodeFor_empty Remove_def)
qed

theorem Remove_last_node_then_panics_witness:
  "\<exists>r'. Remove (NewHashRing [(''n1'', 7)] 150) ''n1'' = Ret r' \<and> (\<exists>msg. Remove r' ''n1'' = Panic msg)"
proof -
  let ?r = "NewHashRing [(''n1'', 7)] 150"
  have d: "dom (ring_clients ?r) \<subseteq> {''n1''}" and p: "0 < replicas ?r"
    by (simp_all add: NewHashRing_def Let_def addVnodes_eq)
  have "\<exists>r'. Remove ?r ''n1'' = Ret r'"
    by (simp add: Remove_def NewHashRing_def Let_def addVnodes_eq)
  then obtain r' where r': "Remove ?r ''n1'' = Ret r'" ..
  from Remove_last_node_then_panics [OF ring_reach.new d p r'] r' show ?thesis by blast
qed

end
