(* ===== verification/Go_Float.thy ===== *)
theory Go_Float
  imports Complex_Main Prelude
begin

text \<open>
  The float64 quotient the circuit breaker's failure rate is computed with: the exact quotient of
  two 32-bit counts rounded to 53 significant bits, ties to even, as IEEE 754 prescribes and the Go
  specification requires of \<^verbatim>\<open>float64(a) / float64(b)\<close>. The quotient is its exact
  rational value; the counts are far from the subnormal and overflow ranges.
\<close>

text \<open>
  A float64: its exact value, an infinity (negative or not), or not a number. The sign of a zero is
  not kept; nothing here depends on it.
\<close>

datatype float64 = Finite rat | Infinity bool | NaN

text \<open>The order of IEEE 754: a comparison with NaN is false.\<close>

fun float64_less :: "float64 \<Rightarrow> float64 \<Rightarrow> bool" where
  "float64_less (Finite x) (Finite y) = (x < y)"
| "float64_less (Finite x) (Infinity neg) = (\<not> neg)"
| "float64_less (Infinity neg) (Finite y) = neg"
| "float64_less (Infinity neg) (Infinity neg') = (neg \<and> \<not> neg')"
| "float64_less _ _ = False"

fun bit_len :: "nat \<Rightarrow> nat" where
  "bit_len n = (if n = 0 then 0 else Suc (bit_len (n div 2)))"

declare bit_len.simps [simp del]

text \<open>The scale at which the quotient has exactly 53 bits before the point.\<close>

definition quot_scale :: "nat \<Rightarrow> nat \<Rightarrow> nat" where
  "quot_scale a b =
     (let e = bit_len b + 53 - bit_len a in if a * 2 ^ e div b < 2 ^ 53 then e else e - 1)"

definition round_even :: "nat \<Rightarrow> nat \<Rightarrow> nat" where
  "round_even n d =
     (let q = n div d; r = n mod d in if d < 2 * r \<or> d = 2 * r \<and> odd q then q + 1 else q)"

definition float64_div :: "nat \<Rightarrow> nat \<Rightarrow> rat" where
  "float64_div a b =
     (if a = 0 then 0
      else let e = quot_scale a b in of_nat (round_even (a * 2 ^ e) b) / 2 ^ e)"

section \<open>Rounding error\<close>

lemma round_even_error:
  assumes "0 < d"
  shows "2 * round_even n d * d \<le> 2 * n + d" and "2 * n \<le> 2 * round_even n d * d + d"
proof -
  have n: "n = n div d * d + n mod d" and r: "n mod d < d" using assms by simp_all
  define q r where "q = n div d" and "r = n mod d"
  have "n = q * d + r" "r < d" using n r by (simp_all add: q_def r_def)
  then show "2 * round_even n d * d \<le> 2 * n + d" and "2 * n \<le> 2 * round_even n d * d + d"
    by (auto simp: round_even_def Let_def q_def [symmetric] r_def [symmetric] algebra_simps)
qed

lemma bit_len_bounds: "0 < n \<Longrightarrow> 2 ^ (bit_len n - 1) \<le> n \<and> n < 2 ^ bit_len n \<and> 0 < bit_len n"
proof (induction n rule: bit_len.induct)
  case (1 n)
  show ?case
  proof (cases "n div 2 = 0")
    case True
    with 1 have "n = 1" by simp
    then show ?thesis by (simp add: bit_len.simps)
  next
    case False
    with 1 have IH: "2 ^ (bit_len (n div 2) - 1) \<le> n div 2 \<and> n div 2 < 2 ^ bit_len (n div 2) \<and> 0 < bit_len (n div 2)"
      by simp
    define k where "k = bit_len (n div 2)"
    have "bit_len n = Suc k" using "1.prems" by (simp add: bit_len.simps [of n] k_def)
    moreover have "2 * 2 ^ (k - 1) = (2::nat) ^ k" using IH by (cases k) (simp_all add: k_def)
    moreover have "2 * (2 ^ (k - 1)) \<le> n" "n < 2 * 2 ^ k" using IH by (auto simp: k_def)
    ultimately show ?thesis by simp
  qed
qed

lemma bit_len_mono:
  assumes "a \<le> b"
  shows "bit_len a \<le> bit_len b"
proof (cases "a = 0")
  case True
  then show ?thesis by (simp add: bit_len.simps)
next
  case False
  then have "2 ^ (bit_len a - 1) \<le> a" "b < 2 ^ bit_len b" "0 < bit_len a"
    using bit_len_bounds [of a] bit_len_bounds [of b] assms by auto
  with assms have "(2::nat) ^ (bit_len a - 1) < 2 ^ bit_len b" by linarith
  then show ?thesis using \<open>0 < bit_len a\<close> by simp
qed

lemma quot_scale_ge: "a \<le> b \<Longrightarrow> 52 \<le> quot_scale a b"
  using bit_len_mono [of a b] by (auto simp: quot_scale_def Let_def)

text \<open>A quotient of at most one is off by at most \<open>2^-53\<close>.\<close>

lemma float64_div_error:
  assumes "a \<le> b" and "0 < b"
  shows "\<bar>float64_div a b - of_nat a / of_nat b\<bar> \<le> 1 / 2 ^ 53"
proof (cases "a = 0")
  case False
  define e where "e = quot_scale a b"
  define m where "m = round_even (a * 2 ^ e) b"
  have "real (2 * m * b) \<le> real (2 * (a * 2 ^ e) + b)" "real (2 * (a * 2 ^ e)) \<le> real (2 * m * b + b)"
    using round_even_error [OF assms(2), of "a * 2 ^ e"] unfolding m_def of_nat_le_iff by blast+
  then have up: "(2 * of_nat m * of_nat b :: rat) \<le> 2 * (of_nat a * 2 ^ e) + of_nat b"
    and lo: "(2 * (of_nat a * 2 ^ e) :: rat) \<le> 2 * of_nat m * of_nat b + of_nat b"
    by (metis (mono_tags, lifting) of_nat_add of_nat_le_iff of_nat_mult of_nat_numeral of_nat_power)+
  have pos: "(0 :: rat) < of_nat b" "(0 :: rat) < 2 ^ e" using assms(2) by simp_all
  have "(of_nat m / 2 ^ e - of_nat a / of_nat b :: rat)
      = (of_nat m * of_nat b - of_nat a * 2 ^ e) / (2 ^ e * of_nat b)"
    using pos by (simp add: field_simps)
  moreover have "\<bar>of_nat m * of_nat b - of_nat a * 2 ^ e :: rat\<bar> \<le> of_nat b / 2"
    using up lo by (intro abs_leI) linarith+
  ultimately have "\<bar>of_nat m / 2 ^ e - of_nat a / of_nat b :: rat\<bar> \<le> of_nat b / 2 / (2 ^ e * of_nat b)"
    by (simp only: abs_divide) (use pos in \<open>intro frac_le; simp\<close>)
  also have "\<dots> = 1 / 2 ^ Suc e" using pos by (simp add: field_simps)
  also have "\<dots> \<le> 1 / 2 ^ 53"
    using quot_scale_ge [OF assms(1)] by (intro divide_left_mono power_increasing) (simp_all add: e_def)
  finally show ?thesis using False by (simp add: float64_div_def e_def m_def Let_def)
qed (simp add: float64_div_def)

section \<open>Comparing with the constant 0.2\<close>

text \<open>The float64 nearest to 0.2.\<close>

definition f0_2 :: rat where
  "f0_2 = 3602879701896397 / 2 ^ 54"

lemma bit_len_unique:
  assumes "2 ^ k \<le> n" and "n < 2 ^ Suc k"
  shows "bit_len n = Suc k"
proof -
  have "0 < n" using assms(1) by (metis gr0I not_less zero_less_numeral zero_less_power)
  then have "(2::nat) ^ (bit_len n - 1) < 2 ^ Suc k" "(2::nat) ^ k < 2 ^ bit_len n" "0 < bit_len n"
    using bit_len_bounds [of n] assms by linarith+
  then have "bit_len n - 1 < Suc k" "k < bit_len n" "0 < bit_len n"
    by (auto dest: power_less_imp_less_exp [rotated] simp del: power_Suc)
  then show ?thesis by linarith
qed

lemma bit_len_5:
  assumes "0 < a"
  shows "bit_len (5 * a) = bit_len a + 2 \<or> bit_len (5 * a) = bit_len a + 3"
proof -
  obtain k where k: "bit_len a = Suc k" "2 ^ k \<le> a" "a < 2 ^ Suc k"
    using bit_len_bounds [OF assms] by (metis Suc_pred')
  show ?thesis
  proof (cases "5 * a < 2 ^ (k + 3)")
    case True
    with k have "bit_len (5 * a) = Suc (k + 2)" by (intro bit_len_unique) (simp_all add: numeral_eq_Suc)
    then show ?thesis by (simp add: k)
  next
    case False
    with k have "bit_len (5 * a) = Suc (k + 3)" by (intro bit_len_unique) (simp_all add: numeral_eq_Suc)
    then show ?thesis by (simp add: k)
  qed
qed

lemma float64_div_fifth:
  assumes "0 < a"
  shows "float64_div a (5 * a) = f0_2"
proof -
  have cancel: "a * n div (5 * a) = n div 5" "a * n mod (5 * a) = a * (n mod 5)" for n
    using assms by (simp_all add: mult.commute [of 5 a] mod_mult_mult1)
  have e: "quot_scale a (5 * a) = 55"
    using bit_len_5 [OF assms] by (auto simp: quot_scale_def Let_def cancel)
  have "round_even (a * 2 ^ 55) (5 * a) = 7205759403792794"
    using assms by (simp only: round_even_def Let_def cancel) simp
  with e assms show ?thesis by (simp add: float64_div_def f0_2_def)
qed

lemma float64_div_gt_fifth:
  assumes "a \<le> b" and "0 < b" and "b < 2 ^ 32"
  shows "float64_div a b > f0_2 \<longleftrightarrow> b < 5 * a"
proof -
  define x :: rat where "x = of_nat a / of_nat b"
  have b: "(0 :: rat) < of_nat b" "of_nat b < (2 :: rat) ^ 32"
    using assms of_nat_less_iff [of b "2 ^ 32", where 'a = rat] by simp_all
  have err: "\<bar>float64_div a b - x\<bar> \<le> 1 / 2 ^ 53"
    using float64_div_error [OF assms(1,2)] by (simp add: x_def)
  define y :: rat where "y = 1 / (5 * of_nat b)"
  have gap: "y > 1 / 34359738368" using b by (simp add: y_def field_simps)
  have near: "x - 1 / 9007199254740992 \<le> float64_div a b" "float64_div a b \<le> x + 1 / 9007199254740992"
    using err unfolding abs_le_iff by simp_all
  have f: "f0_2 = 3602879701896397 / 18014398509481984" by (simp add: f0_2_def)
  consider "b < 5 * a" | "b = 5 * a" | "5 * a < b" by linarith
  then show ?thesis
  proof cases
    case 1
    then have "(of_nat (b + 1) :: rat) \<le> of_nat (5 * a)" by (simp only: of_nat_le_iff)
    then have "(of_nat b + 1) / (5 * of_nat b) \<le> x"
      using b divide_right_mono [of "of_nat b + 1" "5 * of_nat a :: rat" "5 * of_nat b"] by (simp add: x_def)
    then have "x \<ge> 1 / 5 + y" using b by (simp add: y_def add_divide_distrib)
    with near gap f have "float64_div a b > f0_2" by linarith
    with 1 show ?thesis by simp
  next
    case 2
    then show ?thesis using assms float64_div_fifth [of a] by simp
  next
    case 3
    then have "(of_nat (5 * a + 1) :: rat) \<le> of_nat b" by (simp only: of_nat_le_iff)
    then have "x \<le> (of_nat b - 1) / (5 * of_nat b)"
      using b divide_right_mono [of "5 * of_nat a :: rat" "of_nat b - 1" "5 * of_nat b"] by (simp add: x_def)
    then have "x \<le> 1 / 5 - y" using b by (simp add: y_def diff_divide_distrib)
    with near gap f have "\<not> float64_div a b > f0_2" by linarith
    with 3 show ?thesis by simp
  qed
qed

end
