(* ===== verification/Sim_Services.thy ===== *)
theory Sim_Services
  imports Url_Repository
begin

text \<open>
  A concrete instance of the services: tables and caches as finite functions, a settable clock and
  breaker, and a codec. It satisfies all laws of theory \<open>Url_Model\<close>, so their conjunction is
  consistent, and it is the environment in which the theorems about the gateway are exercised on
  concrete inputs.
\<close>

record sim =
  sim_rows :: "string \<rightharpoonup> url_row"
  sim_entries :: "client \<Rightarrow> string \<rightharpoonup> string"
  sim_open :: bool
  sim_clock :: gotime
  sim_ids :: nat

definition sim_start :: sim where
  "sim_start = \<lparr>sim_rows = (\<lambda>_. None), sim_entries = (\<lambda>_ _. None), sim_open = False, sim_clock = Time 0 0, sim_ids = 1\<rparr>"

section \<open>A codec\<close>

text \<open>
  A URL becomes six lists of numbers; a number is written as that many strokes and a full stop, a
  list is closed by a semicolon.
\<close>

definition enc_nat :: "nat \<Rightarrow> string" where
  "enc_nat n = replicate n CHR ''|'' @ ''.''"

definition enc_field :: "nat list \<Rightarrow> string" where
  "enc_field ns = concat (map enc_nat ns) @ '';''"

fun dec_fields :: "string \<Rightarrow> nat \<Rightarrow> nat list \<Rightarrow> nat list list" where
  "dec_fields [] n ns = []"
| "dec_fields (c # cs) n ns =
     (if c = CHR ''|'' then dec_fields cs (Suc n) ns
      else if c = CHR ''.'' then dec_fields cs 0 (ns @ [n])
      else ns # dec_fields cs 0 [])"

definition int_nats :: "int \<Rightarrow> nat list" where
  "int_nats i = [if i < 0 then 1 else 0, nat \<bar>i\<bar>]"

definition nats_int :: "nat \<Rightarrow> nat \<Rightarrow> int" where
  "nats_int s n = (if s = 1 then - int n else int n)"

definition time_nats :: "gotime \<Rightarrow> nat list" where
  "time_nats t = int_nats (tsec t) @ int_nats (tnsec t)"

fun nats_time :: "nat list \<Rightarrow> gotime option" where
  "nats_time [a, b, c, d] = Some (Time (nats_int a b) (nats_int c d))"
| "nats_time _ = None"

definition url_fields :: "url \<Rightarrow> nat list list" where
  "url_fields u =
     [[unat (ID u)], map of_char (ShortCode u), map of_char (OriginalURL u), time_nats (CreatedAt u),
      (case ExpiresAt u of None \<Rightarrow> [] | Some t \<Rightarrow> time_nats t), int_nats (ClickCount u)]"

fun fields_url :: "nat list list \<Rightarrow> url option" where
  "fields_url [[i], code, url, created, expires, [a, b]] =
     (case nats_time created of
        None \<Rightarrow> None
      | Some t \<Rightarrow> Some \<lparr>ID = of_nat i, ShortCode = map char_of code, OriginalURL = map char_of url,
          CreatedAt = t, ExpiresAt = nats_time expires, ClickCount = nats_int a b\<rparr>)"
| "fields_url _ = None"

definition sim_Marshal :: "url \<Rightarrow> string option" where
  "sim_Marshal u =
     (if json_time_ok (CreatedAt u) \<and> pred_option json_time_ok (ExpiresAt u)
      then Some (''{'' @ concat (map enc_field (url_fields u))) else None)"

definition sim_Unmarshal :: "string \<Rightarrow> url option" where
  "sim_Unmarshal s = (case s of [] \<Rightarrow> None | c # cs \<Rightarrow> fields_url (dec_fields cs 0 []))"

lemma dec_strokes: "dec_fields (replicate k CHR ''|'' @ cs) n ns = dec_fields cs (n + k) ns"
  by (induction k arbitrary: n) simp_all

lemma dec_field: "dec_fields (concat (map enc_nat ms) @ CHR '';'' # cs) 0 ns = (ns @ ms) # dec_fields cs 0 []"
  by (induction ms arbitrary: ns) (simp_all add: enc_nat_def dec_strokes)

lemma dec_enc: "dec_fields (concat (map enc_field fs)) 0 [] = fs"
  by (induction fs) (simp_all add: enc_field_def dec_field)

lemma nats_time_nats: "nats_time (time_nats t) = Some t"
  by (cases t) (simp add: time_nats_def int_nats_def nats_int_def)

lemma fields_url_fields: "fields_url (url_fields u) = Some u"
  by (cases u) (simp add: url_fields_def int_nats_def nats_time_nats nats_int_def comp_def split: option.splits)

lemma sim_Unmarshal_Marshal: "sim_Marshal u = Some s \<Longrightarrow> sim_Unmarshal s = Some u \<and> HasPrefix s ''{''"
  by (auto simp: sim_Marshal_def sim_Unmarshal_def dec_enc fields_url_fields HasPrefix_def split: if_splits)

section \<open>The services\<close>

text \<open>With \<open>brk\<close> the breaker follows the state; without it, it is always closed.\<close>

definition sim_env :: "bool \<Rightarrow> sim env" where
  "sim_env brk =
     \<lparr>redis_Get = (\<lambda>ctx c k x. (case sim_entries x c k of None \<Rightarrow> Inl RedisNil | Some v \<Rightarrow> Inr v, x)),
      redis_Set = (\<lambda>ctx c k v ttl x. (None, x\<lparr>sim_entries := (sim_entries x)(c := (sim_entries x c)(k \<mapsto> v))\<rparr>)),
      redis_Del = (\<lambda>ctx c k x. (None, x\<lparr>sim_entries := (sim_entries x)(c := (sim_entries x c)(k := None))\<rparr>)),
      redis_Ping = (\<lambda>ctx c x. (None, x)),
      pg_insert = (\<lambda>ctx i code url exp x.
        if sim_rows x code \<noteq> None then (Inl (PgError ''23505''), x)
        else if \<not> valid_utf8 code \<or> \<not> valid_utf8 url then (Inl (PgError ''22021''), x)
        else (Inr (i, Time 0 0), x\<lparr>sim_rows := (sim_rows x)(code \<mapsto> inserted_row i code url (Time 0 0) exp)\<rparr>)),
      pg_select = (\<lambda>ctx code x.
        (case sim_rows x code of
           Some row \<Rightarrow> if row_valid code row then Inr row else Inl ErrNoRows
         | None \<Rightarrow> Inl ErrNoRows, x)),
      pg_delete = (\<lambda>ctx code x.
        (Inr (case sim_rows x code of Some row \<Rightarrow> if row_valid code row then 1 else 0 | None \<Rightarrow> 0),
         x\<lparr>sim_rows := (sim_rows x)(code := None)\<rparr>)),
      pg_Ping = (\<lambda>ctx x. (None, x)),
      cb_before = (\<lambda>x. (if brk \<and> sim_open x then Some ErrOpenState else None, x)),
      cb_after = (\<lambda>b x. x),
      cb_State = (\<lambda>x. (if brk \<and> sim_open x then StateOpen else StateClosed, x)),
      time_Now = (\<lambda>x. (sim_clock x, x)),
      uuid_New = (\<lambda>x. (of_nat (sim_ids x), x\<lparr>sim_ids := Suc (sim_ids x)\<rparr>)),
      json_Marshal = sim_Marshal, json_Unmarshal = sim_Unmarshal, unicode_lower = (\<lambda>s. s)\<rparr>"

definition sim_view :: "sim view" where
  "sim_view =
     \<lparr>rows = (\<lambda>x code. case sim_rows x code of
         Some row \<Rightarrow> if row_valid code row then Some row else None | None \<Rightarrow> None),
      entries = sim_entries\<rparr>"

lemma row_valid_inserted:
  "valid_utf8 code \<Longrightarrow> valid_utf8 url \<Longrightarrow> row_valid code (inserted_row i code url t exp)"
  by (cases exp) (simp_all add: row_valid_def inserted_row_def)

lemma sim_time_ok: "json_time_ok (Time 0 0)"
  by (simp add: json_time_ok_def year_day_def)

lemmas sim_simps = sim_env_def sim_view_def keeps_def entries_shrink_def

lemma sim_pg_laws: "pg_insert_law (sim_env b) sim_view" "pg_select_law (sim_env b) sim_view" "pg_delete_law (sim_env b) sim_view"
  by (auto simp: pg_insert_law_def pg_select_law_def pg_delete_law_def sim_simps row_valid_inserted sim_time_ok
      split: option.splits if_splits)

lemma sim_redis_laws: "redis_get_law (sim_env b) sim_view" "redis_set_law (sim_env b) sim_view" "redis_del_law (sim_env b) sim_view"
  by (auto simp: redis_get_law_def redis_set_law_def redis_del_law_def sim_simps map_le_def
      split: option.splits if_splits)

lemma sim_ok: "services_ok (sim_env b) sim_view"
proof -
  have "codec_law (sim_env b)"
    using sim_Unmarshal_Marshal by (auto simp: codec_law_def sim_env_def) (simp_all add: sim_Marshal_def)
  moreover have "frame_law (sim_env b) sim_view" by (simp add: frame_law_def sim_simps)
  ultimately show ?thesis
    by (simp add: services_ok_def sim_pg_laws sim_redis_laws)
qed

lemma sim_pg_up: "pg_up (sim_env b) sim_view"
  by (auto simp: pg_up_def sim_simps split: option.splits if_splits)

end
