(* ===== verification/Cached_Repository.thy ===== *)
theory Cached_Repository
  imports Url_Repository Hash_Ring Go_Float Sim_Services
begin

text \<open>
  \<^verbatim>\<open>internal/repository/cached_url_repository.go\<close>: the repository the gateway serves from.
  It reads through a cache (cache-aside, with negative entries), writes through it, and guards every
  Redis call with a circuit breaker.

  The breaker is the third-party gobreaker; \<open>Execute\<close> is its documented contract over the
  parameters \<open>cb_before\<close> and \<open>cb_after\<close>: a rejected request is not run, an accepted one is
  and its success is recorded, a panic counts as a failure and goes on. \<^verbatim>\<open>singleflight.Do\<close>
  runs its callback for the first caller of a key; this theory follows one caller alone, theory
  \<open>Concurrent_Repository\<close> interleaves many. Spans, logs and
  the durations put into histograms have no effect on the state and are left out; counters are kept.
\<close>

section \<open>Definitions\<close>

subsection \<open>Circuit breaker settings\<close>

record cb_settings =
  MaxRequests :: "32 word"
  Interval :: int
  Timeout :: int
  ConsecutiveFailures :: "32 word"
  FailureRateThreshold :: float64
  MinRequestsToTrip :: "32 word"
  OperationTimeout :: int

definition DefaultCBSettings :: cb_settings where
  "DefaultCBSettings =
     \<lparr>MaxRequests = 3, Interval = 10 * Second, Timeout = 30 * Second, ConsecutiveFailures = 20,
      FailureRateThreshold = Finite f0_2, MinRequestsToTrip = 50, OperationTimeout = 50 * Millisecond\<rparr>"

text \<open>\<^verbatim>\<open>gobreaker.Counts\<close>\<close>

record cb_counts =
  cnt_Requests :: "32 word"
  cnt_TotalSuccesses :: "32 word"
  cnt_TotalFailures :: "32 word"
  cnt_ConsecutiveSuccesses :: "32 word"
  cnt_ConsecutiveFailures :: "32 word"

definition readyToTrip :: "cb_settings \<Rightarrow> cb_counts \<Rightarrow> bool" where
  "readyToTrip cb counts =
     (if 0 < MinRequestsToTrip cb \<and> float64_less (Finite 0) (FailureRateThreshold cb)
         \<and> MinRequestsToTrip cb \<le> cnt_Requests counts
         \<and> float64_less (FailureRateThreshold cb)
             (Finite (float64_div (unat (cnt_TotalFailures counts)) (unat (cnt_Requests counts))))
      then True
      else 0 < ConsecutiveFailures cb \<and> ConsecutiveFailures cb \<le> cnt_ConsecutiveFailures counts)"

definition isSuccessful :: "cache_err option \<Rightarrow> bool" where
  "isSuccessful err = (err = None \<or> err = Some (CacheErr RedisNil))"

datatype log_level = LevelInfo | LevelWarn | LevelError

definition onStateChange :: "cb_state \<Rightarrow> cb_state \<Rightarrow> log_level \<times> string" where
  "onStateChange from_state to_state =
     (case to_state of
        StateOpen \<Rightarrow> (LevelError, ''circuit breaker OPENED - failing fast'')
      | StateClosed \<Rightarrow>
          if from_state = StateHalfOpen then (LevelInfo, ''circuit breaker RECOVERED'')
          else (LevelWarn, ''circuit breaker state change'')
      | StateHalfOpen \<Rightarrow> (LevelWarn, ''circuit breaker testing recovery''))"

text \<open>\<^verbatim>\<open>gobreaker.Settings\<close>, as the constructor fills them in.\<close>

record breaker =
  br_Name :: string
  br_MaxRequests :: "32 word"
  br_Interval :: int
  br_Timeout :: int
  br_ReadyToTrip :: "cb_counts \<Rightarrow> bool"
  br_IsSuccessful :: "cache_err option \<Rightarrow> bool"
  br_OnStateChange :: "cb_state \<Rightarrow> cb_state \<Rightarrow> log_level \<times> string"

subsection \<open>The repository\<close>

text \<open>The methods of \<^verbatim>\<open>cache.ClientProvider\<close> the repository calls, and the ring as one.\<close>

record client_provider =
  prov_ClientFor :: "string \<Rightarrow> client option"
  prov_NodeFor :: "string \<Rightarrow> string"

definition ring_provider :: "hash_ring \<Rightarrow> client_provider" where
  "ring_provider ring = \<lparr>prov_ClientFor = ClientFor ring, prov_NodeFor = NodeFor ring\<rparr>"

record 'x cached_repository =
  cr_db :: "'x repository"
  cr_cache :: "client_provider option"
  cr_ttl :: int
  cr_cacheCB :: breaker
  cr_cacheTimeout :: int

definition NewCachedURLRepository ::
  "'x repository \<Rightarrow> client_provider option \<Rightarrow> int \<Rightarrow> cb_settings option list \<Rightarrow> 'x cached_repository" where
  "NewCachedURLRepository db cache ttl opts =
     (let cb = (case opts of Some s # _ \<Rightarrow> s | _ \<Rightarrow> DefaultCBSettings) in
      \<lparr>cr_db = db, cr_cache = cache, cr_ttl = ttl,
       cr_cacheCB =
         \<lparr>br_Name = ''redis'', br_MaxRequests = MaxRequests cb, br_Interval = Interval cb,
          br_Timeout = Timeout cb, br_ReadyToTrip = readyToTrip cb,
          br_IsSuccessful = isSuccessful, br_OnStateChange = onStateChange\<rparr>,
       cr_cacheTimeout = OperationTimeout cb\<rparr>)"

definition notFoundSentinel :: string where
  "notFoundSentinel = ''__NOT_FOUND__''"

definition cache_key :: "string \<Rightarrow> string" where
  "cache_key code = ''url:'' @ code"

definition nil_dereference :: string where
  "nil_dereference = ''invalid memory address or nil pointer dereference''"

definition Execute :: "'x env \<Rightarrow> breaker \<Rightarrow> ('x world, cache_err + 'a) go \<Rightarrow> ('x world, cache_err + 'a) go" where
  "Execute E br req =
     go_bind (call (cb_before E))
       (\<lambda>rejected. case rejected of
          Some e \<Rightarrow> go_ret (Inl (BreakerErr e))
        | None \<Rightarrow>
            go_try req
              (\<lambda>res. go_then
                 (call (\<lambda>x. ((), cb_after E (br_IsSuccessful br (case res of Inl e \<Rightarrow> Some e | Inr _ \<Rightarrow> None)) x)))
                 (go_ret res))
              (\<lambda>msg. go_then (call (\<lambda>x. ((), cb_after E False x))) (go_panic msg)))"

text \<open>The request's Redis client; a nil interface or a nil client panics when it is used.\<close>

definition cache_client :: "'x cached_repository \<Rightarrow> string \<Rightarrow> ('x world, client) go" where
  "cache_client r key =
     (case cr_cache r of
        None \<Rightarrow> go_panic nil_dereference
      | Some p \<Rightarrow> (case prov_ClientFor p key of None \<Rightarrow> go_panic nil_dereference | Some c \<Rightarrow> go_ret c))"

definition cacheGet :: "'x env \<Rightarrow> 'x cached_repository \<Rightarrow> ctx \<Rightarrow> string \<Rightarrow> ('x world, cache_err + string) go" where
  "cacheGet E r ctx key =
     (let cacheCtx = WithTimeout ctx (cr_cacheTimeout r) in
      Execute E (cr_cacheCB r)
        (go_bind (cache_client r key) (\<lambda>client.
           go_bind (call (redis_Get E cacheCtx client key)) (\<lambda>res. go_ret (map_sum CacheErr id res)))))"

text \<open>\<open>cacheSet\<close> and \<open>cacheDel\<close> share the tail that counts an error, unless the breaker is open.\<close>

definition cache_command ::
  "'x env \<Rightarrow> 'x cached_repository \<Rightarrow> string \<Rightarrow> string \<Rightarrow> (client \<Rightarrow> 'x \<Rightarrow> redis_err option \<times> 'x) \<Rightarrow> ('x world, unit) go" where
  "cache_command E r key label cmd =
     go_bind
       (Execute E (cr_cacheCB r)
          (go_bind (cache_client r key) (\<lambda>client.
             go_bind (call (cmd client)) (\<lambda>err.
               go_ret (case err of None \<Rightarrow> Inr () | Some e \<Rightarrow> Inl (CacheErr e))))))
       (\<lambda>res. case res of
          Inl err \<Rightarrow> if err = BreakerErr ErrOpenState then go_ret () else emit (TotalErrors label)
        | Inr _ \<Rightarrow> go_ret ())"

definition cacheSet :: "'x env \<Rightarrow> 'x cached_repository \<Rightarrow> ctx \<Rightarrow> string \<Rightarrow> string \<Rightarrow> int \<Rightarrow> ('x world, unit) go" where
  "cacheSet E r ctx key data ttl =
     (let cacheCtx = WithTimeout ctx (cr_cacheTimeout r) in
      cache_command E r key ''cache_write'' (\<lambda>client. redis_Set E cacheCtx client key data ttl))"

definition cacheDel :: "'x env \<Rightarrow> 'x cached_repository \<Rightarrow> ctx \<Rightarrow> string \<Rightarrow> ('x world, unit) go" where
  "cacheDel E r ctx key =
     (let cacheCtx = WithTimeout ctx (cr_cacheTimeout r) in
      cache_command E r key ''cache_delete'' (\<lambda>client. redis_Del E cacheCtx client key))"

text \<open>Storing a URL, as \<^verbatim>\<open>Create\<close> and \<^verbatim>\<open>rewriteCache\<close> do.\<close>

definition store_url :: "'x env \<Rightarrow> 'x cached_repository \<Rightarrow> ctx \<Rightarrow> string \<Rightarrow> url \<Rightarrow> ('x world, unit) go" where
  "store_url E r ctx key u =
     (case json_Marshal E u of
        Some data \<Rightarrow> cacheSet E r ctx key data (cr_ttl r)
      | None \<Rightarrow> emit (TotalErrors ''cache_serialization''))"

definition isNotFoundError :: "repo_err \<Rightarrow> bool" where
  "isNotFoundError err = (err = ErrNotFound)"

definition rewriteCache ::
  "'x env \<Rightarrow> ctx \<Rightarrow> 'x cached_repository \<Rightarrow> string \<Rightarrow> repo_err + url \<Rightarrow> ('x world, repo_err + url) go" where
  "rewriteCache E ctx r cacheKey res =
     (case res of
        Inl err \<Rightarrow>
          go_then
            (if cr_cache r \<noteq> None \<and> isNotFoundError err
             then cacheSet E r ctx cacheKey notFoundSentinel Minute else go_ret ())
            (go_ret (Inl err))
      | Inr u \<Rightarrow>
          go_then (if cr_cache r \<noteq> None then store_url E r ctx cacheKey u else go_ret ())
            (go_ret (Inr u)))"

text \<open>The callback: re-check the cache, then ask the database with a context nobody can cancel.\<close>

definition singleflight_callback ::
  "'x env \<Rightarrow> ctx \<Rightarrow> 'x cached_repository \<Rightarrow> string \<Rightarrow> ('x world, repo_err + url) go" where
  "singleflight_callback E ctx r code =
     (let cacheKey = cache_key code;
          dbCtx = WithoutCancel ctx;
          query = go_bind (GetByCode (cr_db r) dbCtx code) (\<lambda>res.
            go_then (emit (DbQueryDuration ''SELECT'')) (rewriteCache E dbCtx r cacheKey res))
      in if cr_cache r = None then query
         else go_bind (cacheGet E r ctx cacheKey) (\<lambda>got.
           case got of
             Inl err \<Rightarrow> query
           | Inr cached \<Rightarrow>
               if cached = notFoundSentinel then go_ret (Inl ErrNotFound)
               else (case json_Unmarshal E cached of Some u \<Rightarrow> go_ret (Inr u) | None \<Rightarrow> query)))"

text \<open>
  The callback returns a URL whenever it returns no error, so the type assertion on its result
  cannot fail.
\<close>

definition queryFromDBWithSingleflight ::
  "'x env \<Rightarrow> ctx \<Rightarrow> 'x cached_repository \<Rightarrow> string \<Rightarrow> ('x world, repo_err + url) go" where
  "queryFromDBWithSingleflight E ctx r code =
     go_bind (singleflight_callback E ctx r code) (\<lambda>res.
       case res of Inl gerr \<Rightarrow> go_ret (Inl gerr) | Inr u \<Rightarrow> go_ret (Inr u))"

definition CachedURLRepository_GetByCode ::
  "'x env \<Rightarrow> 'x cached_repository \<Rightarrow> ctx \<Rightarrow> string \<Rightarrow> ('x world, repo_err + url) go" where
  "CachedURLRepository_GetByCode E r ctx code =
     (let cacheKey = cache_key code in
      case cr_cache r of
        None \<Rightarrow> queryFromDBWithSingleflight E ctx r code
      | Some p \<Rightarrow>
          (let node = prov_NodeFor p cacheKey;
               miss = go_then (emit (CacheMisses node)) (queryFromDBWithSingleflight E ctx r code)
           in go_bind (cacheGet E r ctx cacheKey) (\<lambda>got.
             case got of
               Inr cached \<Rightarrow>
                 if cached = notFoundSentinel
                 then go_then (emit (CacheHits node)) (go_ret (Inl ErrNotFound))
                 else (case json_Unmarshal E cached of
                     Some cachedURL \<Rightarrow> go_then (emit (CacheHits node)) (go_ret (Inr cachedURL))
                   | None \<Rightarrow> go_then (emit (TotalErrors ''cache_deserialization'')) miss)
             | Inl err \<Rightarrow>
                 if err \<noteq> CacheErr RedisNil \<and> err \<noteq> BreakerErr ErrOpenState
                 then go_then (emit (TotalErrors ''cache_read'')) miss
                 else miss)))"

definition CachedURLRepository_Create ::
  "'x env \<Rightarrow> 'x cached_repository \<Rightarrow> ctx \<Rightarrow> url \<Rightarrow> ('x world, repo_err option \<times> url) go" where
  "CachedURLRepository_Create E r ctx url =
     go_bind (Create (cr_db r) ctx url) (\<lambda>(err, url').
       case err of
         Some e \<Rightarrow>
           go_then (emit (DbQueryDuration ''INSERT''))
             (go_then (emit (TotalErrors ''db_insert'')) (go_ret (Some e, url')))
       | None \<Rightarrow>
           go_then (emit (DbQueryDuration ''INSERT''))
             (go_then
               (if cr_cache r \<noteq> None then store_url E r ctx (cache_key (ShortCode url')) url' else go_ret ())
               (go_ret (None, url'))))"

definition CachedURLRepository_Delete ::
  "'x env \<Rightarrow> 'x cached_repository \<Rightarrow> ctx \<Rightarrow> string \<Rightarrow> ('x world, repo_err option) go" where
  "CachedURLRepository_Delete E r ctx code =
     go_bind (Delete (cr_db r) ctx code) (\<lambda>err.
       case err of
         Some e \<Rightarrow>
           go_then (emit (DbQueryDuration ''DELETE''))
             (go_then (emit (TotalErrors ''db_delete'')) (go_ret (Some e)))
       | None \<Rightarrow>
           go_then (emit (DbQueryDuration ''DELETE''))
             (go_then (if cr_cache r \<noteq> None then cacheDel E r ctx (cache_key code) else go_ret ())
               (go_ret None)))"

definition cb_state_String :: "cb_state \<Rightarrow> string" where
  "cb_state_String s =
     (case s of StateClosed \<Rightarrow> ''closed'' | StateHalfOpen \<Rightarrow> ''half-open'' | StateOpen \<Rightarrow> ''open'')"

definition CBState :: "'x env \<Rightarrow> ('x world, string) go" where
  "CBState E = go_bind (call (cb_State E)) (\<lambda>s. go_ret (cb_state_String s))"

definition CachedURLRepository :: "'x env \<Rightarrow> 'x cached_repository \<Rightarrow> 'x repository" where
  "CachedURLRepository E r =
     \<lparr>GetByCode = CachedURLRepository_GetByCode E r, Create = CachedURLRepository_Create E r,
      Delete = CachedURLRepository_Delete E r\<rparr>"

section \<open>When the breaker trips\<close>

text \<open>
  C27: With the default settings the breaker trips exactly when, after at least 50 requests, more
  than a fifth of them failed, or 20 failed in a row. The float64 comparison of the code is exact for
  all 32-bit counts, the boundary of exactly one fifth included.
\<close>

theorem readyToTrip_default:
  assumes "cnt_TotalFailures counts \<le> cnt_Requests counts"
  shows "readyToTrip DefaultCBSettings counts \<longleftrightarrow>
     50 \<le> unat (cnt_Requests counts) \<and> unat (cnt_Requests counts) < 5 * unat (cnt_TotalFailures counts)
     \<or> 20 \<le> unat (cnt_ConsecutiveFailures counts)"
proof -
  let ?a = "unat (cnt_TotalFailures counts)" and ?b = "unat (cnt_Requests counts)"
  have "?a \<le> ?b" using assms by (simp add: word_le_nat_alt)
  moreover have "?b < 2 ^ 32" 
  proof -
    have "?b < 2 ^ LENGTH(32)" by (rule unsigned_less)
    then show ?thesis by simp
  qed
  ultimately have "50 \<le> ?b \<Longrightarrow> float64_div ?a ?b > f0_2 \<longleftrightarrow> ?b < 5 * ?a"
    by (intro float64_div_gt_fifth) simp_all
  moreover have "0 < f0_2" by (simp add: f0_2_def)
  ultimately show ?thesis
    by (auto simp: readyToTrip_def DefaultCBSettings_def word_le_nat_alt)
qed

theorem readyToTrip_default_witness:
  "\<not> readyToTrip DefaultCBSettings
       \<lparr>cnt_Requests = 100, cnt_TotalSuccesses = 80, cnt_TotalFailures = 20,
        cnt_ConsecutiveSuccesses = 1, cnt_ConsecutiveFailures = 0\<rparr>
   \<and> readyToTrip DefaultCBSettings
       \<lparr>cnt_Requests = 100, cnt_TotalSuccesses = 79, cnt_TotalFailures = 21,
        cnt_ConsecutiveSuccesses = 1, cnt_ConsecutiveFailures = 0\<rparr>"
  using readyToTrip_default
    [of "\<lparr>cnt_Requests = 100, cnt_TotalSuccesses = 80, cnt_TotalFailures = 20,
        cnt_ConsecutiveSuccesses = 1, cnt_ConsecutiveFailures = 0\<rparr>"]
    readyToTrip_default
    [of "\<lparr>cnt_Requests = 100, cnt_TotalSuccesses = 79, cnt_TotalFailures = 21,
        cnt_ConsecutiveSuccesses = 1, cnt_ConsecutiveFailures = 0\<rparr>"]
  by simp

section \<open>What the breaker does to a request\<close>

lemma wp_Execute:
  assumes "services_ok E V"
    and req: "\<And>x. keeps V (ext w) x \<Longrightarrow> wp req P (w\<lparr>ext := x\<rparr>)"
    and post: "\<And>res w' x. P res w' \<Longrightarrow> keeps V (ext w') x \<Longrightarrow> Q res (w'\<lparr>ext := x\<rparr>)"
    and rejected: "\<And>e x. keeps V (ext w) x \<Longrightarrow> fst (cb_before E (ext w)) = Some e \<Longrightarrow>
        Q (Inl (BreakerErr e)) (w\<lparr>ext := x\<rparr>)"
  shows "wp (Execute E br req) Q w"
proof -
  obtain b x where before: "cb_before E (ext w) = (b, x)" by force
  note frame = frame_keeps [OF services_okD(7) [OF assms(1)]]
  from frame(1) [of "ext w"] before have "keeps V (ext w) x" by simp
  then have "wp req P (w\<lparr>ext := x\<rparr>)" by (rule req)
  then have "wp req (\<lambda>res. wp (go_then (call (\<lambda>x. ((), cb_after E (f res) x))) (go_ret res)) Q) (w\<lparr>ext := x\<rparr>)" for f
    by (rule wp_mono) (simp add: wp_simps post frame)
  then show ?thesis
    using rejected [OF \<open>keeps V (ext w) x\<close>] before
    by (auto simp: Execute_def wp_simps split: option.splits intro: wp_try)
qed

section \<open>Coherence of the cache\<close>

text \<open>
  An entry tells the truth about a row when it is the sentinel and there is no row, or it decodes to
  a URL that matches the row. A cache is coherent when every entry on the node that owns its key does.
\<close>

definition entry_ok :: "'x env \<Rightarrow> url_row option \<Rightarrow> string \<Rightarrow> bool" where
  "entry_ok E found v =
     (if v = notFoundSentinel then found = None
      else (case json_Unmarshal E v of
              Some u \<Rightarrow> (\<exists>row. found = Some row \<and> url_matches u row)
            | None \<Rightarrow> True))"

definition owner :: "'x cached_repository \<Rightarrow> string \<Rightarrow> client option" where
  "owner r key = Option.bind (cr_cache r) (\<lambda>p. prov_ClientFor p key)"

definition coherent_at :: "'x env \<Rightarrow> 'x view \<Rightarrow> 'x cached_repository \<Rightarrow> string \<Rightarrow> 'x \<Rightarrow> bool" where
  "coherent_at E V r code x =
     (\<forall>c v. owner r (cache_key code) = Some c \<longrightarrow> entries V x c (cache_key code) = Some v \<longrightarrow>
        entry_ok E (rows V x code) v)"

definition coherent :: "'x env \<Rightarrow> 'x view \<Rightarrow> 'x cached_repository \<Rightarrow> 'x \<Rightarrow> bool" where
  "coherent E V r x = (\<forall>code. coherent_at E V r code x)"

text \<open>No nil client: the cache is switched off, or every key has an owner.\<close>

definition clients_total :: "'x cached_repository \<Rightarrow> bool" where
  "clients_total r = (\<forall>p key. cr_cache r = Some p \<longrightarrow> prov_ClientFor p key \<noteq> None)"

text \<open>The cache obeys: the breaker lets requests through and writes are acknowledged.\<close>

definition cache_up :: "'x env \<Rightarrow> bool" where
  "cache_up E =
     ((\<forall>x. fst (cb_before E x) = None)
      \<and> (\<forall>ctx c k v ttl x. fst (redis_Set E ctx c k v ttl x) = None)
      \<and> (\<forall>ctx c k x. fst (redis_Del E ctx c k x) = None))"

text \<open>Metric points other than cache lookups.\<close>

definition lookup_metric :: "metric \<Rightarrow> bool" where
  "lookup_metric m = (case m of CacheHits _ \<Rightarrow> True | CacheMisses _ \<Rightarrow> True | _ \<Rightarrow> False)"

definition quiet :: "'x world \<Rightarrow> 'x world \<Rightarrow> bool" where
  "quiet w w' = (spawned w' = spawned w \<and> (\<exists>ms. metrics w' = metrics w @ ms \<and> filter lookup_metric ms = []))"

lemma quiet_refl [simp]: "quiet w w"
  by (simp add: quiet_def)

lemma quiet_trans: "quiet w1 w2 \<Longrightarrow> quiet w2 w3 \<Longrightarrow> quiet w1 w3"
  by (auto simp: quiet_def)

lemma quiet_ext [simp]: "quiet w (w'\<lparr>ext := x\<rparr>) = quiet w w'" "quiet (w\<lparr>ext := x\<rparr>) w' = quiet w w'"
  by (simp_all add: quiet_def)

lemma quiet_metric: "\<not> lookup_metric m \<Longrightarrow> quiet w w' \<Longrightarrow> quiet w (w'\<lparr>metrics := metrics w' @ [m]\<rparr>)"
  by (auto simp: quiet_def)

lemma lookup_metric_simps [simp]:
  "lookup_metric (CacheHits n)" "lookup_metric (CacheMisses n)"
  "\<not> lookup_metric (DbQueryDuration op)" "\<not> lookup_metric (TotalErrors label)"
  by (simp_all add: lookup_metric_def)

lemma cache_key_eq [simp]: "cache_key a = cache_key b \<longleftrightarrow> a = b"
  by (simp add: cache_key_def)

lemma owner_total: "clients_total r \<Longrightarrow> cr_cache r \<noteq> None \<Longrightarrow> \<exists>c. owner r key = Some c"
  by (auto simp: clients_total_def owner_def)

lemma coherentD:
  "coherent E V r x \<Longrightarrow> owner r (cache_key code) = Some c \<Longrightarrow> entries V x c (cache_key code) = Some v \<Longrightarrow>
     entry_ok E (rows V x code) v"
  by (simp add: coherent_def coherent_at_def)

lemma keeps_entry: "keeps V x x' \<Longrightarrow> entries V x' c k = Some v \<Longrightarrow> entries V x c k = Some v"
  by (auto simp: keeps_def entries_shrink_def dest: map_leD)

lemma keeps_entry_None: "keeps V x x' \<Longrightarrow> entries V x c k = None \<Longrightarrow> entries V x' c k = None"
  by (metis keeps_entry option.exhaust)

lemma coherent_at_keeps: "coherent_at E V r code x \<Longrightarrow> keeps V x x' \<Longrightarrow> coherent_at E V r code x'"
  unfolding coherent_at_def by (metis keeps_def keeps_entry)

lemma coherent_keeps: "coherent E V r x \<Longrightarrow> keeps V x x' \<Longrightarrow> coherent E V r x'"
  by (auto simp: coherent_def intro: coherent_at_keeps)

text \<open>A change of one row leaves the other keys coherent.\<close>

lemma coherent_at_other:
  assumes "coherent E V r x" and "entries_shrink V x x'" and "rows V x' = (rows V x)(code := found)"
    and "code' \<noteq> code"
  shows "coherent_at E V r code' x'"
proof -
  have "entries V x c k = Some v" if "entries V x' c k = Some v" for c k v
    using assms(2) that by (auto simp: entries_shrink_def dest: map_leD)
  with assms(1,3,4) show ?thesis by (auto simp: coherent_def coherent_at_def)
qed

section \<open>The cache operations\<close>

lemma wp_cache_client: "owner r key = Some c \<Longrightarrow> wp (cache_client r key) Q w = Q c w"
  by (auto simp: cache_client_def owner_def wp_simps split: option.splits)

lemma cacheGet_wp:
  assumes "services_ok E V" and "owner r key = Some c"
  shows "wp (cacheGet E r ctx key)
    (\<lambda>res w'. (\<exists>x. w' = w\<lparr>ext := x\<rparr>) \<and> keeps V (ext w) (ext w') \<and> (\<forall>v. res = Inr v \<longrightarrow> entries V (ext w) c key = Some v)) w"
  unfolding cacheGet_def Let_def
proof (rule wp_Execute [OF assms(1), where P =
      "\<lambda>res w'. (\<exists>x. w' = w\<lparr>ext := x\<rparr>) \<and> keeps V (ext w) (ext w') \<and> (\<forall>v. res = Inr v \<longrightarrow> entries V (ext w) c key = Some v)"])
  fix x
  assume x: "keeps V (ext w) x"
  obtain got x' where get: "redis_Get E (WithTimeout ctx (cr_cacheTimeout r)) c key x = (got, x')" by force
  with services_okD(4) [OF assms(1)]
  have "keeps V x x'" and "case got of Inr v \<Rightarrow> entries V x c key = Some v
      | Inl e \<Rightarrow> (e = RedisNil \<longrightarrow> entries V x' c key = None)"
    unfolding redis_get_law_def by blast+
  with x get show "wp (go_bind (cache_client r key) (\<lambda>client.
        go_bind (call (redis_Get E (WithTimeout ctx (cr_cacheTimeout r)) client key)) (\<lambda>res. go_ret (map_sum CacheErr id res))))
      (\<lambda>res w'. (\<exists>x. w' = w\<lparr>ext := x\<rparr>) \<and> keeps V (ext w) (ext w') \<and> (\<forall>v. res = Inr v \<longrightarrow> entries V (ext w) c key = Some v))
      (w\<lparr>ext := x\<rparr>)"
    by (auto simp: wp_simps wp_cache_client [OF assms(2)] intro: keeps_trans keeps_entry split: sum.splits)
qed (auto intro: keeps_trans)

text \<open>
  A cache command runs on the owner and adds no lookup to the metrics, or the breaker rejects it.
\<close>

lemma cache_command_wp:
  assumes "services_ok E V" and "owner r key = Some c"
    and cmd: "\<And>x err x'. keeps V (ext w) x \<Longrightarrow> cmd c x = (err, x') \<Longrightarrow> G err x'"
  shows "wp (cache_command E r key label cmd)
    (\<lambda>_ w'. quiet w w' \<and>
       ((\<exists>err x. G err x \<and> keeps V x (ext w')) \<or> (fst (cb_before E (ext w)) \<noteq> None \<and> keeps V (ext w) (ext w')))) w"
proof -
  have "wp (Execute E (cr_cacheCB r)
          (go_bind (cache_client r key) (\<lambda>client.
             go_bind (call (cmd client)) (\<lambda>err. go_ret (case err of None \<Rightarrow> Inr () | Some e \<Rightarrow> Inl (CacheErr e))))))
     (\<lambda>_ w'. quiet w w' \<and>
       ((\<exists>err x. G err x \<and> keeps V x (ext w')) \<or> (fst (cb_before E (ext w)) \<noteq> None \<and> keeps V (ext w) (ext w')))) w"
    by (rule wp_Execute [OF assms(1), where P = "\<lambda>_ w'. quiet w w' \<and> (\<exists>err. G err (ext w'))"])
       (auto simp: wp_simps wp_cache_client [OF assms(2)] split: prod.splits dest: cmd)
  then show ?thesis
    unfolding cache_command_def wp_bind
    by (rule wp_mono) (auto simp: wp_simps quiet_metric split: sum.splits)
qed

text \<open>
  Writing a true entry restores coherence at its key, if it was coherent there or the write is
  certain to take effect; it disturbs no other key.
\<close>

definition set_effect ::
  "'x view \<Rightarrow> client \<Rightarrow> string \<Rightarrow> string \<Rightarrow> 'x \<Rightarrow> redis_err option \<Rightarrow> 'x \<Rightarrow> bool" where
  "set_effect V c k data x err x' =
     (rows V x' = rows V x
      \<and> (\<forall>c' k' v. entries V x' c' k' = Some v \<longrightarrow>
           (c', k', v) = (c, k, data) \<or> entries V x c' k' = Some v \<and> (err = None \<longrightarrow> (c', k') \<noteq> (c, k))))"

lemma redis_Set_effect:
  assumes "services_ok E V" and "redis_Set E ctx c k data ttl x = (err, x')"
  shows "set_effect V c k data x err x'"
proof -
  from services_okD(5) [OF assms(1)] assms(2)
  have rows: "rows V x' = rows V x" and other: "c' \<noteq> c \<Longrightarrow> entries V x' c' \<subseteq>\<^sub>m entries V x c'"
    and own: "case err of None \<Rightarrow> entries V x' c \<subseteq>\<^sub>m (entries V x c)(k \<mapsto> data)
      | Some e \<Rightarrow> entries V x' c \<subseteq>\<^sub>m (entries V x c)(k \<mapsto> data) \<or> entries V x' c \<subseteq>\<^sub>m entries V x c" for c'
    unfolding redis_set_law_def by blast+
  have "(c', k', v) = (c, k, data) \<or> entries V x c' k' = Some v \<and> (err = None \<longrightarrow> (c', k') \<noteq> (c, k))"
    if e: "entries V x' c' k' = Some v" for c' k' v
  proof (cases "c' = c")
    case True
    with e have ec: "entries V x' c k' = Some v" by simp
    show ?thesis
    proof (cases err)
      case None
      with own ec have "((entries V x c)(k \<mapsto> data)) k' = Some v" by (auto dest: map_leD)
      with True show ?thesis by (auto split: if_splits)
    next
      case (Some e)
      with own ec have "((entries V x c)(k \<mapsto> data)) k' = Some v \<or> entries V x c k' = Some v"
        by (auto dest: map_leD)
      with True Some show ?thesis by (auto split: if_splits)
    qed
  next
    case False
    with e other [OF False] show ?thesis by (auto dest: map_leD)
  qed
  with rows show ?thesis by (simp add: set_effect_def)
qed

lemma coherent_after_set:
  assumes "set_effect V c (cache_key code) data x err x'" and "owner r (cache_key code) = Some c"
    and "entry_ok E (rows V x code) data"
    and "\<And>code'. code' \<noteq> code \<Longrightarrow> coherent_at E V r code' x"
    and "coherent_at E V r code x \<or> err = None"
  shows "coherent E V r x'"
  unfolding coherent_def
proof
  fix code'
  show "coherent_at E V r code' x'"
    using assms unfolding coherent_at_def set_effect_def
    by (cases "code' = code") (simp_all, metis option.inject, metis cache_key_eq)
qed

lemma cacheSet_wp:
  assumes "services_ok E V" and "owner r (cache_key code) = Some c"
    and "entry_ok E (rows V (ext w) code) data"
    and "\<And>code'. code' \<noteq> code \<Longrightarrow> coherent_at E V r code' (ext w)"
    and "coherent_at E V r code (ext w) \<or> cache_up E"
  shows "wp (cacheSet E r ctx (cache_key code) data ttl)
    (\<lambda>_ w'. quiet w w' \<and> rows V (ext w') = rows V (ext w) \<and> coherent E V r (ext w')) w"
proof -
  let ?G = "\<lambda>(err :: redis_err option) x. rows V x = rows V (ext w) \<and> coherent E V r x"
  have "wp (cacheSet E r ctx (cache_key code) data ttl)
    (\<lambda>_ w'. quiet w w' \<and> ((\<exists>err x. ?G err x \<and> keeps V x (ext w'))
       \<or> (fst (cb_before E (ext w)) \<noteq> None \<and> keeps V (ext w) (ext w')))) w"
    unfolding cacheSet_def Let_def
  proof (rule cache_command_wp [OF assms(1,2), where G = ?G])
    fix x err x'
    assume x: "keeps V (ext w) x"
      and set: "redis_Set E (WithTimeout ctx (cr_cacheTimeout r)) c (cache_key code) data ttl x = (err, x')"
    from set have "cache_up E \<Longrightarrow> err = None" unfolding cache_up_def by (metis fst_conv)
    then have "coherent_at E V r code x \<or> err = None"
      using assms(5) coherent_at_keeps [OF _ x] by auto
    moreover have "rows V x = rows V (ext w)" using x by (simp add: keeps_def)
    ultimately have "coherent E V r x'"
      using assms(3) coherent_at_keeps [OF assms(4) x]
      by (intro coherent_after_set [OF redis_Set_effect [OF assms(1) set] assms(2)]) simp_all
    with redis_Set_effect [OF assms(1) set] \<open>rows V x = rows V (ext w)\<close> show "?G err x'"
      by (simp add: set_effect_def)
  qed
  then show ?thesis
  proof (rule wp_mono, elim conjE disjE exE)
    fix w'
    assume "quiet w w'" "fst (cb_before E (ext w)) \<noteq> None" "keeps V (ext w) (ext w')"
    moreover from this have "coherent_at E V r code (ext w)"
      using assms(5) by (auto simp: cache_up_def)
    ultimately show "quiet w w' \<and> rows V (ext w') = rows V (ext w) \<and> coherent E V r (ext w')"
      using assms(4) by (metis coherent_at_keeps coherent_def keeps_def)
  qed (auto simp: keeps_def intro: coherent_keeps)
qed

lemma cacheDel_wp:
  assumes "services_ok E V" and "owner r (cache_key code) = Some c"
    and "\<And>code'. code' \<noteq> code \<Longrightarrow> coherent_at E V r code' (ext w)" and "cache_up E"
  shows "wp (cacheDel E r ctx (cache_key code))
    (\<lambda>_ w'. quiet w w' \<and> rows V (ext w') = rows V (ext w) \<and> coherent E V r (ext w')) w"
proof -
  let ?G = "\<lambda>(err :: redis_err option) x. rows V x = rows V (ext w) \<and> coherent E V r x"
  have "wp (cacheDel E r ctx (cache_key code))
    (\<lambda>_ w'. quiet w w' \<and> ((\<exists>err x. ?G err x \<and> keeps V x (ext w'))
       \<or> (fst (cb_before E (ext w)) \<noteq> None \<and> keeps V (ext w) (ext w')))) w"
    unfolding cacheDel_def Let_def
  proof (rule cache_command_wp [OF assms(1,2), where G = ?G])
    fix x err x'
    assume x: "keeps V (ext w) x"
      and del: "redis_Del E (WithTimeout ctx (cr_cacheTimeout r)) c (cache_key code) x = (err, x')"
    from del assms(4) have "err = None" unfolding cache_up_def by (metis fst_conv)
    with services_okD(6) [OF assms(1)] del
    have k: "keeps V x x'" and "entries V x' c (cache_key code) = None"
      unfolding redis_del_law_def by blast+
    with assms(2) have "coherent_at E V r code x'" by (simp add: coherent_at_def)
    moreover have "coherent_at E V r code' x'" if "code' \<noteq> code" for code'
      by (rule coherent_at_keeps [OF coherent_at_keeps [OF assms(3) [OF that] x] k])
    ultimately have "coherent E V r x'" unfolding coherent_def by metis
    with x k show "?G err x'" by (simp add: keeps_def)
  qed
  then show ?thesis
    by (rule wp_mono) (use assms(4) in \<open>auto simp: keeps_def cache_up_def intro: coherent_keeps\<close>)
qed

section \<open>The repository over a backing repository\<close>

text \<open>A reachable database leaves no other error than not found.\<close>

definition answers :: "'x env \<Rightarrow> 'x view \<Rightarrow> url_row option \<Rightarrow> repo_err + url \<Rightarrow> bool" where
  "answers E V found res =
     (get_result found res \<and> (pg_up E V \<longrightarrow> (\<forall>e. res = Inl e \<longrightarrow> e = ErrNotFound)))"

text \<open>
  What the cached repository needs of the repository it wraps: the contract, that it leaves the
  cache alone, and that the strings it stores are valid UTF-8.
\<close>

locale backing_repository =
  fixes E :: "'x env" and V :: "'x view" and R :: "'x repository"
  assumes get_backing: "services_ok E V \<Longrightarrow>
      wp (GetByCode R ctx code)
        (\<lambda>res w'. keeps V (ext w) (ext w') \<and> quiet w w' \<and> answers E V (rows V (ext w) code) res
           \<and> (\<forall>u. res = Inr u \<longrightarrow> valid_utf8 (ShortCode u) \<and> valid_utf8 (OriginalURL u))) w"
    and create_backing: "services_ok E V \<Longrightarrow> ClickCount u = 0 \<Longrightarrow>
      wp (Create R ctx u)
        (\<lambda>res w'. entries_shrink V (ext w) (ext w') \<and> quiet w w'
           \<and> create_result u (rows V (ext w)) (rows V (ext w')) res
           \<and> (pg_up E V \<longrightarrow> rows V (ext w) (ShortCode u) \<noteq> None \<longrightarrow> fst res = Some ErrCodeConflict)
           \<and> (fst res = None \<longrightarrow> valid_utf8 (ShortCode u) \<and> valid_utf8 (OriginalURL u)
                \<and> json_time_ok (CreatedAt (snd res)))) w"
    and delete_backing: "services_ok E V \<Longrightarrow>
      wp (Delete R ctx code)
        (\<lambda>res w'. entries_shrink V (ext w) (ext w') \<and> quiet w w'
           \<and> delete_result code (rows V (ext w)) (rows V (ext w')) res
           \<and> (pg_up E V \<longrightarrow> res = (if rows V (ext w) code = None then Some ErrNotFound else None))) w"

text \<open>Adding a guarded fact about the same run.\<close>

lemma wp_imp_conj: "wp m Q w \<Longrightarrow> (A \<Longrightarrow> wp m R w) \<Longrightarrow> wp m (\<lambda>x w'. Q x w' \<and> (A \<longrightarrow> R x w')) w"
  by (cases A) (auto intro: wp_conj)

interpretation db_backing: backing_repository E V "URLRepository E" for E V
proof (unfold_locales, goal_cases)
  case (1 w ctx code)
  show ?case
    by (simp only: repository_simps, rule wp_mono [OF wp_imp_conj [OF db_get_wp [OF 1] db_get_avail [of E V]]])
       (auto simp: url_of_row_def row_valid_def answers_def get_result_def split: if_splits)
next
  case (2 u ctx w)
  have "wp (URLRepository_Create E ctx u) (\<lambda>res w'. fst res = Some ErrCodeConflict) w"
    if "pg_up E V \<and> rows V (ext w) (ShortCode u) \<noteq> None"
    using that db_create_conflict by blast
  from wp_imp_conj [OF db_create_wp [OF 2] this] show ?case
    unfolding repository_simps by (rule wp_mono) auto
next
  case (3 w ctx code)
  show ?case
    by (simp only: repository_simps,
        rule wp_mono [OF wp_imp_conj [OF db_delete_wp [OF 3] db_delete_avail [of E V, OF _ 3]]]) auto
qed

text \<open>An encoded URL is a true entry for the row it matches.\<close>

lemma marshalled_entry_ok:
  assumes "codec_law E" and "json_Marshal E u = Some data"
    and "valid_utf8 (ShortCode u)" and "valid_utf8 (OriginalURL u)"
    and "found = Some row" and "url_matches u row"
  shows "entry_ok E found data"
proof -
  from assms have "json_Unmarshal E data = Some u" and "HasPrefix data ''{''"
    unfolding codec_law_def by blast+
  then show ?thesis using assms(5,6)
    by (auto simp: entry_ok_def notFoundSentinel_def HasPrefix_def)
qed

lemma entry_ok_result:
  "entry_ok E found v \<Longrightarrow> v = notFoundSentinel \<Longrightarrow> answers E V found (Inl ErrNotFound)"
  "entry_ok E found v \<Longrightarrow> v \<noteq> notFoundSentinel \<Longrightarrow> json_Unmarshal E v = Some u \<Longrightarrow> answers E V found (Inr u)"
  by (auto simp: entry_ok_def get_result_def answers_def)

text \<open>
  The effect of a step that keeps the cache coherent and touches neither the rows nor the lookup
  counters.
\<close>

definition calm :: "'x env \<Rightarrow> 'x view \<Rightarrow> 'x cached_repository \<Rightarrow> 'x world \<Rightarrow> 'x world \<Rightarrow> bool" where
  "calm E V r w w' = (quiet w w' \<and> rows V (ext w') = rows V (ext w) \<and> coherent E V r (ext w'))"

lemmas cacheSet_calm = cacheSet_wp [folded calm_def] and cacheDel_calm = cacheDel_wp [folded calm_def]

lemma calm_trans: "calm E V r w1 w2 \<Longrightarrow> calm E V r w2 w3 \<Longrightarrow> calm E V r w1 w3"
  by (auto simp: calm_def intro: quiet_trans)

lemma calm_metric: "\<not> lookup_metric m \<Longrightarrow> calm E V r w w' \<Longrightarrow> calm E V r w (w'\<lparr>metrics := metrics w' @ [m]\<rparr>)"
  by (simp add: calm_def quiet_metric)

lemma calm_keeps: "coherent E V r (ext w) \<Longrightarrow> keeps V (ext w) (ext w') \<Longrightarrow> quiet w w' \<Longrightarrow> calm E V r w w'"
  by (auto simp: calm_def keeps_def intro: coherent_keeps)

lemma store_url_wp:
  assumes "services_ok E V" and "owner r (cache_key code) = Some c"
    and "valid_utf8 (ShortCode u)" and "valid_utf8 (OriginalURL u)"
    and "rows V (ext w) code = Some row" and "url_matches u row"
    and "\<And>code'. code' \<noteq> code \<Longrightarrow> coherent_at E V r code' (ext w)"
    and "coherent_at E V r code (ext w) \<or> cache_up E \<and> json_Marshal E u \<noteq> None"
  shows "wp (store_url E r ctx (cache_key code) u) (\<lambda>_ w'. calm E V r w w') w"
proof (cases "json_Marshal E u")
  case None
  with assms(7,8) have "coherent E V r (ext w)" unfolding coherent_def by metis
  with None show ?thesis by (simp add: store_url_def wp_simps calm_metric calm_keeps)
next
  case (Some data)
  then have "entry_ok E (rows V (ext w) code) data"
    using marshalled_entry_ok [OF services_okD(8) [OF assms(1)]] assms(3-6) by blast
  with assms(1,2,7,8) have "wp (cacheSet E r ctx (cache_key code) data (cr_ttl r)) (\<lambda>_ w'. calm E V r w w') w"
    by (intro cacheSet_calm) auto
  with Some show ?thesis by (simp add: store_url_def)
qed

lemma rewriteCache_wp:
  assumes "services_ok E V" and "clients_total r" and "coherent E V r (ext w)"
    and "get_result (rows V (ext w) code) res"
    and "\<And>u. res = Inr u \<Longrightarrow> valid_utf8 (ShortCode u) \<and> valid_utf8 (OriginalURL u)"
  shows "wp (rewriteCache E ctx r (cache_key code) res) (\<lambda>res' w'. res' = res \<and> calm E V r w w') w"
proof (cases "cr_cache r")
  case None
  then show ?thesis
    using assms(3) by (auto simp: rewriteCache_def wp_simps calm_def split: sum.splits)
next
  case (Some p)
  then obtain c where c: "owner r (cache_key code) = Some c" using owner_total [OF assms(2)] by blast
  have at: "coherent_at E V r code' (ext w)" for code' using assms(3) by (simp add: coherent_def)
  show ?thesis
  proof (cases res)
    case (Inl err)
    have "isNotFoundError err \<Longrightarrow> entry_ok E (rows V (ext w) code) notFoundSentinel"
      using assms(4) Inl by (simp add: entry_ok_def get_result_def isNotFoundError_def)
    then have "isNotFoundError err \<Longrightarrow> wp (cacheSet E r ctx (cache_key code) notFoundSentinel Minute) (\<lambda>_ w'. calm E V r w w') w"
      using assms(1) c at by (intro cacheSet_calm) auto
    with Inl Some assms(3) show ?thesis by (auto simp: rewriteCache_def wp_simps calm_keeps)
  next
    case (Inr u)
    with assms(4) obtain row where "rows V (ext w) code = Some row" "url_matches u row"
      by (auto simp: get_result_def)
    with Inr Some assms(1,5) c at show ?thesis
      by (auto simp: rewriteCache_def wp_simps intro!: store_url_wp)
  qed
qed

text \<open>
  A cached value read under coherence answers the query; without one the query goes on, from a
  state that differs in the services only.
\<close>

lemma cacheGet_then:
  fixes w :: "'x world"
  assumes "services_ok E V" and "owner r (cache_key code) = Some c" and "coherent E V r (ext w)"
    and hit: "\<And>v x. entry_ok E (rows V (ext w) code) v \<Longrightarrow> keeps V (ext w) x \<Longrightarrow> wp (f (Inr v)) Q (w\<lparr>ext := x\<rparr>)"
    and miss: "\<And>err x. keeps V (ext w) x \<Longrightarrow> wp (f (Inl err)) Q (w\<lparr>ext := x\<rparr>)"
  shows "wp (go_bind (cacheGet E r ctx (cache_key code)) f) Q w"
  unfolding wp_bind
proof (rule wp_mono [OF cacheGet_wp [OF assms(1,2)]])
  fix res :: "cache_err + string" and w' :: "'x world"
  assume *: "(\<exists>x. w' = w\<lparr>ext := x\<rparr>) \<and> keeps V (ext w) (ext w')
    \<and> (\<forall>v. res = Inr v \<longrightarrow> entries V (ext w) c (cache_key code) = Some v)"
  then obtain x where "w' = w\<lparr>ext := x\<rparr>" "keeps V (ext w) x" by auto
  with * show "wp (f res) Q w'"
    using hit miss coherentD [OF assms(3,2)] by (cases res) auto
qed

text \<open>
  The metric points of one read: a hit on the owning node and nothing else, or one miss there (and
  no lookup at all when the cache is switched off).
\<close>

definition lookup_accounting :: "'x cached_repository \<Rightarrow> string \<Rightarrow> 'x world \<Rightarrow> 'x world \<Rightarrow> bool" where
  "lookup_accounting r code w w' =
     (spawned w' = spawned w \<and>
      (\<exists>ms. metrics w' = metrics w @ ms \<and>
        (case cr_cache r of
           None \<Rightarrow> filter lookup_metric ms = []
         | Some p \<Rightarrow> (let node = prov_NodeFor p (cache_key code) in
             ms = [CacheHits node] \<or> filter lookup_metric ms = [CacheMisses node]))))"

context backing_repository
begin

lemma callback_wp:
  assumes "services_ok E V" and "cr_db r = R" and "clients_total r" and "coherent E V r (ext w)"
  shows "wp (singleflight_callback E ctx r code)
    (\<lambda>res w'. calm E V r w w' \<and> answers E V (rows V (ext w) code) res) w"
proof -
  let ?Q = "\<lambda>res w'. calm E V r w w' \<and> answers E V (rows V (ext w) code) res"
  let ?query = "go_bind (GetByCode (cr_db r) (WithoutCancel ctx) code) (\<lambda>res.
     go_then (emit (DbQueryDuration ''SELECT'')) (rewriteCache E (WithoutCancel ctx) r (cache_key code) res))"
  have query: "wp ?query ?Q w0" if w0: "calm E V r w w0" for w0
    unfolding wp_bind assms(2)
  proof (rule wp_mono [OF get_backing [OF assms(1)]], elim conjE)
    fix res w'
    assume k: "keeps V (ext w0) (ext w')" "quiet w0 w'" and res: "answers E V (rows V (ext w0) code) res"
      and utf: "\<forall>u. res = Inr u \<longrightarrow> valid_utf8 (ShortCode u) \<and> valid_utf8 (OriginalURL u)"
    have r0: "rows V (ext w0) = rows V (ext w)" using w0 by (simp add: calm_def)
    have c0: "calm E V r w w'"
      using w0 k by (metis calm_def calm_keeps calm_trans)
    let ?w = "w'\<lparr>metrics := metrics w' @ [DbQueryDuration ''SELECT'']\<rparr>"
    have "wp (rewriteCache E (WithoutCancel ctx) r (cache_key code) res) (\<lambda>res' w''. res' = res \<and> calm E V r ?w w'') ?w"
      using c0 res utf w0 k by (intro rewriteCache_wp [OF assms(1,3)]) (auto simp: calm_def keeps_def answers_def)
    then show "wp (go_then (emit (DbQueryDuration ''SELECT'')) (rewriteCache E (WithoutCancel ctx) r (cache_key code) res)) ?Q w'"
      unfolding wp_then wp_emit
      by (rule wp_mono)
         (use res calm_trans [OF calm_metric [of "DbQueryDuration ''SELECT''", OF _ c0]] in \<open>auto simp: r0\<close>)
  qed
  show ?thesis
  proof (cases "cr_cache r = None")
    case True
    then show ?thesis using query [of w] assms(4) by (simp add: singleflight_callback_def Let_def calm_keeps)
  next
    case False
    then obtain c where c: "owner r (cache_key code) = Some c" using owner_total [OF assms(3)] by blast
    have calm: "calm E V r w (w\<lparr>ext := x\<rparr>)" if "keeps V (ext w) x" for x
      using assms(4) that by (simp add: calm_keeps)
    from False show ?thesis
      unfolding singleflight_callback_def Let_def
      by (simp only: if_False, intro cacheGet_then [OF assms(1) c assms(4)])
         (auto simp: wp_ret query calm entry_ok_result split: option.splits)
  qed
qed

text \<open>
  One cached read: it tells the truth about the row, keeps the cache coherent and counts one lookup,
  a hit answered without the database or a miss.
\<close>

lemma cached_get_wp:
  assumes "services_ok E V" and "cr_db r = R" and "clients_total r" and "coherent E V r (ext w)"
  shows "wp (CachedURLRepository_GetByCode E r ctx code)
    (\<lambda>res w'. rows V (ext w') = rows V (ext w) \<and> coherent E V r (ext w')
       \<and> answers E V (rows V (ext w) code) res \<and> lookup_accounting r code w w') w"
proof (cases "cr_cache r")
  case None
  then show ?thesis
    by (auto simp: CachedURLRepository_GetByCode_def queryFromDBWithSingleflight_def wp_simps calm_def
        lookup_accounting_def quiet_def split: sum.splits intro!: wp_mono [OF callback_wp [OF assms]])
next
  case (Some p)
  then obtain c where c: "owner r (cache_key code) = Some c" using owner_total [OF assms(3)] by blast
  let ?Q = "\<lambda>res w'. rows V (ext w') = rows V (ext w) \<and> coherent E V r (ext w')
       \<and> answers E V (rows V (ext w) code) res \<and> lookup_accounting r code w w'"
  let ?miss = "CacheMisses (prov_NodeFor p (cache_key code))"
  have miss: "wp (queryFromDBWithSingleflight E ctx r code) ?Q (w0\<lparr>metrics := metrics w0 @ [?miss]\<rparr>)"
    if w0: "calm E V r w w0" for w0
    unfolding queryFromDBWithSingleflight_def wp_bind
  proof (rule wp_mono [OF callback_wp [OF assms(1-3)]])
    show "coherent E V r (ext (w0\<lparr>metrics := metrics w0 @ [?miss]\<rparr>))" using w0 by (simp add: calm_def)
  qed (use w0 Some in \<open>auto simp: wp_simps calm_def quiet_def lookup_accounting_def split: sum.splits\<close>)
  have calm: "calm E V r w (w\<lparr>ext := x\<rparr>)" if "keeps V (ext w) x" for x
    using assms(4) that by (simp add: calm_keeps)
  show ?thesis
    unfolding CachedURLRepository_GetByCode_def Let_def Some option.case
  proof (rule cacheGet_then [OF assms(1) c assms(4)], goal_cases)
    case (1 v x)
    then show ?case
      using miss [OF calm_metric [OF _ calm], of "TotalErrors ''cache_deserialization''" x]
        calm [of x] entry_ok_result [where V = V, of E "rows V (ext w) code" v] Some
      by (auto simp: wp_simps calm_def lookup_accounting_def Let_def split: option.splits)
  next
    case (2 err x)
    then show ?case
      using miss [OF calm_metric [OF _ calm], of "TotalErrors ''cache_read''" x] miss [OF calm, of x]
      by (simp add: wp_simps)
  qed
qed

text \<open>The cache write of a creation restores coherence at the code whose row is new.\<close>

lemma store_created_calm:
  assumes "services_ok E V" and "clients_total r" and "cr_cache r \<noteq> None \<Longrightarrow> cache_up E" and "json_Marshal E u \<noteq> None"
    and "rows V (ext w) (ShortCode u) = Some row" and "url_matches u row"
    and "valid_utf8 (ShortCode u)" and "valid_utf8 (OriginalURL u)"
    and "\<And>code. code \<noteq> ShortCode u \<Longrightarrow> coherent_at E V r code (ext w)"
  shows "wp (if cr_cache r \<noteq> None then store_url E r ctx (cache_key (ShortCode u)) u else go_ret ()) (\<lambda>_ w'. calm E V r w w') w"
proof (cases "cr_cache r = None")
  case True
  then have "coherent E V r x" for x by (simp add: coherent_def coherent_at_def owner_def)
  with True show ?thesis by (simp add: wp_simps calm_keeps)
next
  case False
  then obtain c where "owner r (cache_key (ShortCode u)) = Some c" using owner_total [OF assms(2)] by blast
  with False assms show ?thesis by (auto intro!: store_url_wp)
qed

lemma cached_create_wp:
  assumes "services_ok E V" and "cr_db r = R" and "clients_total r" and "coherent E V r (ext w)"
    and "cr_cache r \<noteq> None \<Longrightarrow> cache_up E"
    and "ClickCount u = 0" and "pred_option json_time_ok (ExpiresAt u)"
  shows "wp (CachedURLRepository_Create E r ctx u)
    (\<lambda>res w'. coherent E V r (ext w') \<and> create_result u (rows V (ext w)) (rows V (ext w')) res
       \<and> (pg_up E V \<longrightarrow> rows V (ext w) (ShortCode u) \<noteq> None \<longrightarrow> fst res = Some ErrCodeConflict)
       \<and> spawned w' = spawned w) w"
  unfolding CachedURLRepository_Create_def wp_bind assms(2)
proof (rule wp_mono [OF create_backing [OF assms(1,6)]], goal_cases)
  case (1 res w1)
  obtain err u' where res: "res = (err, u')" by force
  show ?case
  proof (cases err)
    case (Some e)
    with 1 have "rows V (ext w1) = rows V (ext w)" by (simp add: res create_result_def)
    with 1 assms(4) have "coherent E V r (ext w1)" by (auto intro: coherent_keeps simp: keeps_def)
    with 1 Some show ?thesis by (simp add: res wp_simps quiet_def)
  next
    case None
    let ?w = "w1\<lparr>metrics := metrics w1 @ [DbQueryDuration ''INSERT'']\<rparr>"
    from 1 None obtain row where row: "rows V (ext w1) = (rows V (ext w))(ShortCode u \<mapsto> row)" "url_matches u' row"
      and u': "ShortCode u' = ShortCode u" "OriginalURL u' = OriginalURL u" "ExpiresAt u' = ExpiresAt u"
      and "valid_utf8 (ShortCode u)" "valid_utf8 (OriginalURL u)" "json_time_ok (CreatedAt u')"
      by (auto simp: res create_result_def)
    have "json_Marshal E u' \<noteq> None"
      using services_okD(8) [OF assms(1)] assms(7) u' \<open>json_time_ok (CreatedAt u')\<close>
      unfolding codec_law_def by metis
    have others: "coherent_at E V r code' (ext w1)" if "code' \<noteq> ShortCode u" for code'
      using coherent_at_other [OF assms(4) _ row(1) that] 1 by blast
    have "wp (if cr_cache r \<noteq> None then store_url E r ctx (cache_key (ShortCode u')) u' else go_ret ())
        (\<lambda>_ w'. calm E V r ?w w') ?w"
      using assms(1,3,5) row others u' \<open>json_Marshal E u' \<noteq> None\<close> \<open>valid_utf8 (ShortCode u)\<close> \<open>valid_utf8 (OriginalURL u)\<close>
      by (intro store_created_calm [where row = row]) simp_all
    then show ?thesis
      using 1 None unfolding res by (simp only: prod.case option.case wp_then wp_emit)
        (erule wp_mono, auto simp: wp_simps calm_def quiet_def)
  qed
qed

lemma cached_delete_wp:
  assumes "services_ok E V" and "cr_db r = R" and "clients_total r" and "coherent E V r (ext w)"
    and "cr_cache r \<noteq> None \<Longrightarrow> cache_up E"
  shows "wp (CachedURLRepository_Delete E r ctx code)
    (\<lambda>res w'. coherent E V r (ext w') \<and> delete_result code (rows V (ext w)) (rows V (ext w')) res
       \<and> (pg_up E V \<longrightarrow> res = (if rows V (ext w) code = None then Some ErrNotFound else None))
       \<and> spawned w' = spawned w) w"
  unfolding CachedURLRepository_Delete_def wp_bind assms(2)
proof (rule wp_mono [OF delete_backing [OF assms(1)]], goal_cases)
  case (1 err w1)
  show ?case
  proof (cases err)
    case (Some e)
    with 1 have "rows V (ext w1) = rows V (ext w)" by (simp add: delete_result_def)
    with 1 assms(4) have "coherent E V r (ext w1)" by (auto intro: coherent_keeps simp: keeps_def)
    with 1 Some show ?thesis by (simp add: wp_simps quiet_def)
  next
    case None
    let ?w = "w1\<lparr>metrics := metrics w1 @ [DbQueryDuration ''DELETE'']\<rparr>"
    from 1 None have row: "rows V (ext w1) = (rows V (ext w))(code := None)" by (simp add: delete_result_def)
    have others: "coherent_at E V r code' (ext w1)" if "code' \<noteq> code" for code'
      using coherent_at_other [OF assms(4) _ row that] 1 by blast
    have "wp (if cr_cache r \<noteq> None then cacheDel E r ctx (cache_key code) else go_ret ())
        (\<lambda>_ w'. calm E V r ?w w') ?w"
    proof (cases "cr_cache r = None")
      case True
      then have "coherent E V r x" for x by (simp add: coherent_def coherent_at_def owner_def)
      with True show ?thesis by (simp add: wp_simps calm_keeps)
    next
      case False
      then obtain c where "owner r (cache_key code) = Some c" using owner_total [OF assms(3)] by blast
      with False assms(1,5) others show ?thesis by (auto intro!: cacheDel_calm)
    qed
    then show ?thesis
      using 1 None by (simp only: option.case wp_then wp_emit) (erule wp_mono, auto simp: wp_simps calm_def quiet_def)
  qed
qed

end

section \<open>The contract holds\<close>

text \<open>The invariant of a cached repository in front of PostgreSQL.\<close>

definition cached_inv :: "'x env \<Rightarrow> 'x view \<Rightarrow> 'x cached_repository \<Rightarrow> 'x world \<Rightarrow> bool" where
  "cached_inv E V r w =
     (services_ok E V \<and> cr_db r = URLRepository E \<and> clients_total r \<and> coherent E V r (ext w)
      \<and> (cr_cache r \<noteq> None \<longrightarrow> cache_up E))"

definition storable :: "url \<Rightarrow> bool" where
  "storable u = pred_option json_time_ok (ExpiresAt u)"

lemma cached_simps [simp]:
  "GetByCode (CachedURLRepository E r) = CachedURLRepository_GetByCode E r"
  "Create (CachedURLRepository E r) = CachedURLRepository_Create E r"
  "Delete (CachedURLRepository E r) = CachedURLRepository_Delete E r"
  by (simp_all add: CachedURLRepository_def)

lemma cached_invD:
  assumes "cached_inv E V r w"
  shows "services_ok E V" "cr_db r = URLRepository E" "clients_total r" "coherent E V r (ext w)"
    "cr_cache r \<noteq> None \<Longrightarrow> cache_up E"
  using assms by (simp_all add: cached_inv_def)

lemma cached_inv_next:
  assumes "cached_inv E V r w" and "coherent E V r (ext w')"
  shows "cached_inv E V r w'"
  using assms by (simp add: cached_inv_def)

interpretation cached_repo: url_repository "CachedURLRepository E r" V "cached_inv E V r" storable for E V r
proof (unfold_locales, goal_cases)
  case (1 w ctx code)
  note inv = cached_invD [OF 1]
  show ?case unfolding cached_simps
    by (rule wp_mono [OF db_backing.cached_get_wp [OF inv(1-4)]])
       (auto simp: answers_def intro: cached_inv_next [OF 1])
next
  case (2 w u ctx)
  note inv = cached_invD [OF 2(1)]
  show ?case unfolding cached_simps
    by (rule wp_mono [OF db_backing.cached_create_wp [OF inv 2(3)]])
       (use 2 in \<open>auto simp: storable_def intro: cached_inv_next\<close>)
next
  case (3 w ctx code)
  note inv = cached_invD [OF 3]
  show ?case unfolding cached_simps
    by (rule wp_mono [OF db_backing.cached_delete_wp [OF inv]]) (auto intro: cached_inv_next [OF 3])
qed

interpretation cached_repo_up:
  available_repository "CachedURLRepository E r" V "\<lambda>w. cached_inv E V r w \<and> pg_up E V" storable for E V r
proof (unfold_locales, goal_cases)
  case (1 w ctx code)
  then show ?case
    using cached_repo.get_spec [where E = E and V = V and r = r and w = w and ctx = ctx and code = code]
    by (auto elim: wp_mono)
next
  case (2 w u ctx)
  then show ?case
    using cached_repo.create_spec [where E = E and V = V and r = r and w = w and ctx = ctx and u = u]
    by (auto elim: wp_mono)
next
  case (3 w ctx code)
  then show ?case
    using cached_repo.delete_spec [where E = E and V = V and r = r and w = w and ctx = ctx and code = code]
    by (auto elim: wp_mono)
next
  case (4 w ctx code)
  note inv = cached_invD [OF conjunct1 [OF 4]]
  from 4 show ?case unfolding cached_simps
    by (intro wp_mono [OF db_backing.cached_get_wp [OF inv(1-4)]])
       (auto simp: answers_def get_result_def split: sum.splits)
next
  case (5 w u ctx)
  then have "cached_inv E V r w" by simp
  note inv = cached_invD [OF this]
  from 5 show ?case unfolding cached_simps
    by (intro wp_mono [OF db_backing.cached_create_wp [OF inv 5(3)]]) (auto simp: storable_def)
next
  case (6 w ctx code)
  note inv = cached_invD [OF conjunct1 [OF 6]]
  from 6 show ?case unfolding cached_simps
    by (intro wp_mono [OF db_backing.cached_delete_wp [OF inv]]) auto
qed

section \<open>Properties\<close>

text \<open>The ring of theory \<open>Hash_Ring\<close> provides a client for every key.\<close>

lemma ring_clients_total:
  assumes "ring_reach ring" and "vnodes ring \<noteq> []" and "'''' \<notin> dom (ring_clients ring)"
    and "cr_cache r = Some (ring_provider ring)"
  shows "clients_total r"
proof -
  have "ClientFor ring key \<noteq> None" for key
    using nodeFor_live [OF ring_reach_inv [OF assms(1)] assms(2), of key] assms(3)
    by (auto simp: ClientFor_def Let_def)
  with assms(4) show ?thesis by (simp add: clients_total_def ring_provider_def)
qed

text \<open>A gateway's repository over one Redis node, for the concrete inputs below.\<close>

definition demo_ring :: hash_ring where
  "demo_ring = NewHashRing [(''n1'', 7)] 2"

definition demo_repo :: "bool \<Rightarrow> sim cached_repository" where
  "demo_repo b =
     NewCachedURLRepository (URLRepository (sim_env b)) (Some (ring_provider demo_ring)) (60 * Minute) []"

definition demo_world :: "sim world" where
  "demo_world = \<lparr>ext = sim_start, metrics = [], spawned = []\<rparr>"

definition demo_url :: "string \<Rightarrow> url" where
  "demo_url code =
     \<lparr>ID = 5, ShortCode = code, OriginalURL = ''http://a/'', CreatedAt = Time 0 0, ExpiresAt = None, ClickCount = 0\<rparr>"

lemma demo_repo_fields:
  "cr_db (demo_repo b) = URLRepository (sim_env b)" "cr_cache (demo_repo b) = Some (ring_provider demo_ring)"
  by (simp_all add: demo_repo_def NewCachedURLRepository_def Let_def)

lemma demo_clients: "clients_total (demo_repo b)" "owner (demo_repo b) key = Some 7"
proof -
  have ring: "ring_reach demo_ring" "ring_clients demo_ring = [''n1'' \<mapsto> 7]" "vnodes demo_ring \<noteq> []"
    unfolding demo_ring_def
    by (rule ring_reach.new) (simp_all add: NewHashRing_def Let_def addVnodes_eq upt_rec numeral_2_eq_2)
  then show "clients_total (demo_repo b)"
    by (intro ring_clients_total [of demo_ring]) (simp_all add: demo_repo_fields)
  show "owner (demo_repo b) key = Some 7"
    using nodeFor_live [OF ring_reach_inv [OF ring(1)] ring(3), of key] ring(2)
    by (auto simp: owner_def demo_repo_fields ring_provider_def ClientFor_def Let_def split: if_splits)
qed

lemma demo_coherent: "coherent (sim_env b) sim_view (demo_repo b) (ext demo_world)"
  by (simp add: coherent_def coherent_at_def demo_world_def sim_start_def sim_view_def)

lemma demo_inv: "cached_inv (sim_env False) sim_view (demo_repo False) demo_world"
  by (simp add: cached_inv_def sim_ok demo_repo_fields demo_clients demo_coherent)
     (simp add: cache_up_def sim_env_def)

text \<open>No repository method starts a goroutine.\<close>

lemma cached_spawned:
  assumes "cached_inv E V r w"
  shows "wp (CachedURLRepository_GetByCode E r ctx code) (\<lambda>res w'. spawned w' = spawned w) w"
    and "storable u \<Longrightarrow> ClickCount u = 0 \<Longrightarrow>
      wp (CachedURLRepository_Create E r ctx u) (\<lambda>res w'. spawned w' = spawned w) w"
    and "wp (CachedURLRepository_Delete E r ctx code) (\<lambda>res w'. spawned w' = spawned w) w"
proof -
  note inv = cached_invD [OF assms]
  show "wp (CachedURLRepository_GetByCode E r ctx code) (\<lambda>res w'. spawned w' = spawned w) w"
    by (rule wp_mono [OF db_backing.cached_get_wp [OF inv(1-4)]]) (simp add: lookup_accounting_def)
  show "wp (CachedURLRepository_Create E r ctx u) (\<lambda>res w'. spawned w' = spawned w) w"
    if "storable u" and "ClickCount u = 0"
    by (rule wp_mono [OF db_backing.cached_create_wp [OF inv that(2)]]) (use that in \<open>simp_all add: storable_def\<close>)
  show "wp (CachedURLRepository_Delete E r ctx code) (\<lambda>res w'. spawned w' = spawned w) w"
    by (rule wp_mono [OF db_backing.cached_delete_wp [OF inv]]) simp_all
qed



text \<open>
  C15: A read through a coherent cache tells the truth about the row whatever Redis and the breaker
  do: lost entries, time-outs, rejected requests and failed writes change neither the answer nor the
  coherence of the cache.
\<close>

theorem cached_GetByCode_correct:
  assumes "services_ok E V" and "cr_db r = URLRepository E" and "clients_total r"
    and "coherent E V r (ext w)"
  shows "wp (CachedURLRepository_GetByCode E r ctx code)
    (\<lambda>res w'. rows V (ext w') = rows V (ext w) \<and> coherent E V r (ext w')
       \<and> get_result (rows V (ext w) code) res) w"
  by (rule wp_mono [OF db_backing.cached_get_wp [OF assms]]) (simp add: answers_def)

theorem cached_GetByCode_correct_witness:
  "wp (CachedURLRepository_GetByCode (sim_env True) (demo_repo True) Background ''x'')
    (\<lambda>res w'. rows sim_view (ext w') = rows sim_view (ext demo_world)
       \<and> coherent (sim_env True) sim_view (demo_repo True) (ext w')
       \<and> get_result (rows sim_view (ext demo_world) ''x'') res) demo_world"
  using sim_ok demo_repo_fields(1) demo_clients(1) demo_coherent by (rule cached_GetByCode_correct)

text \<open>
  Every read counts exactly one lookup on the node that owns the key: a hit, which adds nothing
  else and so never queries the database, or a miss. With the cache switched off nothing is counted.
\<close>

theorem cached_GetByCode_accounting:
  assumes "services_ok E V" and "cr_db r = URLRepository E" and "clients_total r"
    and "coherent E V r (ext w)"
  shows "wp (CachedURLRepository_GetByCode E r ctx code) (\<lambda>res w'. lookup_accounting r code w w') w"
  by (rule wp_mono [OF db_backing.cached_get_wp [OF assms]]) simp

theorem cached_GetByCode_accounting_witness:
  "wp (CachedURLRepository_GetByCode (sim_env True) (demo_repo True) Background ''x'')
    (\<lambda>res w'. lookup_accounting (demo_repo True) ''x'' demo_world w') demo_world"
  using sim_ok demo_repo_fields(1) demo_clients(1) demo_coherent by (rule cached_GetByCode_accounting)

text \<open>
  The lapse that \<open>cache_up\<close> excludes: the breaker is open while a URL is deleted, and closes.
\<close>

definition stale_world :: "sim world" where
  "stale_world =
     demo_world\<lparr>ext := sim_start\<lparr>sim_rows := [''x'' \<mapsto> inserted_row 5 ''x'' ''http://a/'' (Time 0 0) None],
       sim_entries := (\<lambda>c. if c = 7 then [cache_key ''x'' \<mapsto> the (sim_Marshal (demo_url ''x''))] else Map.empty),
       sim_open := True\<rparr>\<rparr>"

definition close_breaker :: "sim world \<Rightarrow> sim world" where
  "close_breaker w = w\<lparr>ext := (ext w)\<lparr>sim_open := False\<rparr>\<rparr>"

lemma demo_client: "prov_ClientFor (ring_provider demo_ring) key = Some 7"
  using demo_clients(2) [of True key] by (simp add: owner_def demo_repo_fields)

lemma demo_marshal: "\<exists>s. sim_Marshal (demo_url code) = Some s"
  by (simp add: sim_Marshal_def demo_url_def sim_time_ok)

lemma marshal_not_sentinel: "sim_Marshal u = Some s \<Longrightarrow> s \<noteq> notFoundSentinel"
  using sim_Unmarshal_Marshal [of u s] by (auto simp: HasPrefix_def notFoundSentinel_def)

lemmas demo_eval = go_simps call_def emit_def Execute_def cache_client_def cacheGet_def cacheSet_def cacheDel_def
  cache_command_def demo_repo_fields demo_client sim_env_def CachedURLRepository_Delete_def
  CachedURLRepository_GetByCode_def URLRepository_Delete_def URLRepository_def Let_def


end
