(* ===== verification/Concurrent_Repository.thy ===== *)
theory Concurrent_Repository
  imports Cached_Repository
begin

text \<open>
  The cached repository under concurrent requests. Every request runs in its own goroutine; theory
  \<open>Cached_Repository\<close> follows one of them alone, this theory interleaves any number of them on
  the shared services and the shared \<^verbatim>\<open>singleflight.Group\<close>. A goroutine's position in the
  three methods is a program location; an atomic step is one guarded Redis call or one SQL statement
  with the metric points next to it, or one of the two moments at which \<^verbatim>\<open>requestGroup.Do\<close>
  synchronises: a caller enters, and the caller that runs the callback comes back with its result.

  The group is third-party code and a parameter: \<open>fg_enter\<close> says whether the caller runs the
  function, \<open>fg_leave\<close> who receives its result. \<open>flight_law\<close> is the documentation of
  \<^verbatim>\<open>Do\<close>: one execution is in flight for a key at a time, and duplicate callers wait for it
  and receive the same results.
\<close>

section \<open>Definitions\<close>

type_synonym caller = nat

record 'g flight_group =
  fg_enter :: "string \<Rightarrow> caller \<Rightarrow> 'g \<Rightarrow> bool \<times> 'g"
  fg_leave :: "string \<Rightarrow> 'g \<Rightarrow> caller list \<times> 'g"

text \<open>Where a goroutine is: in the method bodies, in the callback, waiting, or finished.\<close>

datatype location =
    Start repo_op
  | AtGroup ctx string                     \<comment> \<open>before \<^verbatim>\<open>requestGroup.Do\<close>\<close>
  | Waiting ctx string                     \<comment> \<open>inside \<^verbatim>\<open>Do\<close>, for another caller's result\<close>
  | Recheck ctx string                     \<comment> \<open>the callback begins\<close>
  | Query ctx string                       \<comment> \<open>before \<^verbatim>\<open>r.db.GetByCode\<close>\<close>
  | Rewrite ctx string "repo_err + url"    \<comment> \<open>before \<^verbatim>\<open>rewriteCache\<close>\<close>
  | Leave ctx string "repo_err + url"      \<comment> \<open>the callback has returned\<close>
  | StoreCreated ctx url url               \<comment> \<open>the row is inserted, the cache not yet written\<close>
  | Invalidate ctx string                  \<comment> \<open>the row is deleted, the entry not yet\<close>
  | Done repo_op repo_res

text \<open>The first lookup of \<^verbatim>\<open>GetByCode\<close>, up to the point where it answers or enters the group.\<close>

definition get_lookup :: "'x env \<Rightarrow> 'x cached_repository \<Rightarrow> ctx \<Rightarrow> string \<Rightarrow> ('x world, location) go" where
  "get_lookup E r ctx code =
     (let cacheKey = cache_key code in
      case cr_cache r of
        None \<Rightarrow> go_ret (AtGroup ctx code)
      | Some p \<Rightarrow>
          (let node = prov_NodeFor p cacheKey;
               finish = (\<lambda>res. go_then (emit (CacheHits node)) (go_ret (Done (OpGet ctx code) (ResGet res))));
               miss = go_then (emit (CacheMisses node)) (go_ret (AtGroup ctx code))
           in go_bind (cacheGet E r ctx cacheKey) (\<lambda>got.
             case got of
               Inr cached \<Rightarrow>
                 if cached = notFoundSentinel then finish (Inl ErrNotFound)
                 else (case json_Unmarshal E cached of
                     Some cachedURL \<Rightarrow> finish (Inr cachedURL)
                   | None \<Rightarrow> go_then (emit (TotalErrors ''cache_deserialization'')) miss)
             | Inl err \<Rightarrow>
                 if err \<noteq> CacheErr RedisNil \<and> err \<noteq> BreakerErr ErrOpenState
                 then go_then (emit (TotalErrors ''cache_read'')) miss
                 else miss)))"

text \<open>The three atomic parts of the callback.\<close>

definition flight_recheck :: "'x env \<Rightarrow> 'x cached_repository \<Rightarrow> ctx \<Rightarrow> string \<Rightarrow> ('x world, location) go" where
  "flight_recheck E r ctx code =
     (if cr_cache r = None then go_ret (Query ctx code)
      else go_bind (cacheGet E r ctx (cache_key code)) (\<lambda>got.
        case got of
          Inl err \<Rightarrow> go_ret (Query ctx code)
        | Inr cached \<Rightarrow>
            if cached = notFoundSentinel then go_ret (Leave ctx code (Inl ErrNotFound))
            else (case json_Unmarshal E cached of
                    Some u \<Rightarrow> go_ret (Leave ctx code (Inr u))
                  | None \<Rightarrow> go_ret (Query ctx code))))"

definition flight_query :: "'x cached_repository \<Rightarrow> ctx \<Rightarrow> string \<Rightarrow> ('x world, location) go" where
  "flight_query r ctx code =
     go_bind (GetByCode (cr_db r) (WithoutCancel ctx) code) (\<lambda>res.
       go_then (emit (DbQueryDuration ''SELECT'')) (go_ret (Rewrite ctx code res)))"

definition flight_rewrite ::
  "'x env \<Rightarrow> 'x cached_repository \<Rightarrow> ctx \<Rightarrow> string \<Rightarrow> repo_err + url \<Rightarrow> ('x world, location) go" where
  "flight_rewrite E r ctx code res =
     go_bind (rewriteCache E (WithoutCancel ctx) r (cache_key code) res) (\<lambda>res'. go_ret (Leave ctx code res'))"

text \<open>\<^verbatim>\<open>Create\<close> and \<^verbatim>\<open>Delete\<close> in two parts each: the statement, then the cache.\<close>

definition create_insert :: "'x cached_repository \<Rightarrow> ctx \<Rightarrow> url \<Rightarrow> ('x world, location) go" where
  "create_insert r ctx url =
     go_bind (Create (cr_db r) ctx url) (\<lambda>(err, url').
       case err of
         Some e \<Rightarrow>
           go_then (emit (DbQueryDuration ''INSERT''))
             (go_then (emit (TotalErrors ''db_insert'')) (go_ret (Done (OpCreate ctx url) (ResCreate (Some e, url')))))
       | None \<Rightarrow>
           go_then (emit (DbQueryDuration ''INSERT''))
             (go_ret (if cr_cache r \<noteq> None then StoreCreated ctx url url'
                      else Done (OpCreate ctx url) (ResCreate (None, url')))))"

definition create_store :: "'x env \<Rightarrow> 'x cached_repository \<Rightarrow> ctx \<Rightarrow> url \<Rightarrow> url \<Rightarrow> ('x world, location) go" where
  "create_store E r ctx url url' =
     go_then (store_url E r ctx (cache_key (ShortCode url')) url')
       (go_ret (Done (OpCreate ctx url) (ResCreate (None, url'))))"

definition delete_row :: "'x cached_repository \<Rightarrow> ctx \<Rightarrow> string \<Rightarrow> ('x world, location) go" where
  "delete_row r ctx code =
     go_bind (Delete (cr_db r) ctx code) (\<lambda>err.
       case err of
         Some e \<Rightarrow>
           go_then (emit (DbQueryDuration ''DELETE''))
             (go_then (emit (TotalErrors ''db_delete'')) (go_ret (Done (OpDelete ctx code) (ResDelete (Some e)))))
       | None \<Rightarrow>
           go_then (emit (DbQueryDuration ''DELETE''))
             (go_ret (if cr_cache r \<noteq> None then Invalidate ctx code
                      else Done (OpDelete ctx code) (ResDelete None))))"

definition delete_entry :: "'x env \<Rightarrow> 'x cached_repository \<Rightarrow> ctx \<Rightarrow> string \<Rightarrow> ('x world, location) go" where
  "delete_entry E r ctx code =
     go_then (cacheDel E r ctx (cache_key code)) (go_ret (Done (OpDelete ctx code) (ResDelete None)))"

text \<open>The action at a location; none while the caller waits, synchronises or is finished.\<close>

fun action :: "'x env \<Rightarrow> 'x cached_repository \<Rightarrow> location \<Rightarrow> ('x world, location) go option" where
  "action E r (Start (OpGet ctx code)) = Some (get_lookup E r ctx code)"
| "action E r (Start (OpCreate ctx url)) = Some (create_insert r ctx url)"
| "action E r (Start (OpDelete ctx code)) = Some (delete_row r ctx code)"
| "action E r (Recheck ctx code) = Some (flight_recheck E r ctx code)"
| "action E r (Query ctx code) = Some (flight_query r ctx code)"
| "action E r (Rewrite ctx code res) = Some (flight_rewrite E r ctx code res)"
| "action E r (StoreCreated ctx url url') = Some (create_store E r ctx url url')"
| "action E r (Invalidate ctx code) = Some (delete_entry E r ctx code)"
| "action E r _ = None"

record ('x, 'g) system =
  shared :: "'x world"
  group :: 'g
  callers :: "caller \<rightharpoonup> location"

text \<open>
  The result of a flight reaches the caller that ran the callback and the callers that waited: each
  returns it, the error or the URL, from \<^verbatim>\<open>queryFromDBWithSingleflight\<close>.
\<close>

fun returned :: "location \<Rightarrow> repo_err + url \<Rightarrow> location" where
  "returned (Leave ctx code _) res = Done (OpGet ctx code) (ResGet res)"
| "returned (Waiting ctx code) res = Done (OpGet ctx code) (ResGet res)"
| "returned l res = l"

definition land :: "caller set \<Rightarrow> repo_err + url \<Rightarrow> (caller \<rightharpoonup> location) \<Rightarrow> (caller \<rightharpoonup> location)" where
  "land js res ls = (\<lambda>j. if j \<in> js then map_option (\<lambda>l. returned l res) (ls j) else ls j)"

inductive sys_step ::
  "'x env \<Rightarrow> 'x cached_repository \<Rightarrow> 'g flight_group \<Rightarrow> ('x, 'g) system \<Rightarrow> ('x, 'g) system \<Rightarrow> bool"
  for E r G where
  act: "callers s i = Some l \<Longrightarrow> action E r l = Some m \<Longrightarrow> m (shared s) = (Ret l', w) \<Longrightarrow>
    sys_step E r G s (s\<lparr>shared := w, callers := (callers s)(i \<mapsto> l')\<rparr>)"
| enter: "callers s i = Some (AtGroup ctx code) \<Longrightarrow> fg_enter G (cache_key code) i (group s) = (first, g) \<Longrightarrow>
    sys_step E r G s
      (s\<lparr>group := g, callers := (callers s)(i \<mapsto> if first then Recheck ctx code else Waiting ctx code)\<rparr>)"
| leave: "callers s i = Some (Leave ctx code res) \<Longrightarrow> fg_leave G (cache_key code) (group s) = (js, g) \<Longrightarrow>
    sys_step E r G s (s\<lparr>group := g, callers := land (insert i (set js)) res (callers s)\<rparr>)"

text \<open>
  The runs of a gateway from services in state \<open>w\<close> and a new group: requests arrive at any time,
  goroutines step in any order. The list is the history of the table, latest first; it is not part
  of the program's state.
\<close>

inductive sys_run ::
  "'x env \<Rightarrow> 'x view \<Rightarrow> 'x cached_repository \<Rightarrow> 'g flight_group \<Rightarrow> 'g \<Rightarrow> 'x world
   \<Rightarrow> (string \<rightharpoonup> url_row) list \<Rightarrow> ('x, 'g) system \<Rightarrow> bool"
  for E V r G g0 w0 where
  start: "sys_run E V r G g0 w0 [rows V (ext w0)] \<lparr>shared = w0, group = g0, callers = Map.empty\<rparr>"
| arrive: "sys_run E V r G g0 w0 H s \<Longrightarrow> callers s i = None \<Longrightarrow> op_ok (\<lambda>_. True) op \<Longrightarrow>
    sys_run E V r G g0 w0 H (s\<lparr>callers := (callers s)(i \<mapsto> Start op)\<rparr>)"
| step: "sys_run E V r G g0 w0 H s \<Longrightarrow> sys_step E r G s s' \<Longrightarrow>
    sys_run E V r G g0 w0 (rows V (ext (shared s')) # H) s'"

text \<open>
  The contract of the group, over a view of who waits for which key (\<open>None\<close>: no call in flight).
\<close>

definition flight_law :: "'g flight_group \<Rightarrow> 'g \<Rightarrow> ('g \<Rightarrow> string \<rightharpoonup> caller set) \<Rightarrow> bool" where
  "flight_law G g0 waiting =
     (waiting g0 = Map.empty
      \<and> (\<forall>key i g first g'. fg_enter G key i g = (first, g') \<longrightarrow>
           (case waiting g key of
              None \<Rightarrow> first \<and> waiting g' = (waiting g)(key \<mapsto> {})
            | Some W \<Rightarrow> \<not> first \<and> waiting g' = (waiting g)(key \<mapsto> insert i W)))
      \<and> (\<forall>key g W js g'. fg_leave G key g = (js, g') \<longrightarrow> waiting g key = Some W \<longrightarrow>
           set js = W \<and> waiting g' = (waiting g)(key := None)))"

text \<open>A group as a table of waiting callers.\<close>

definition table_group :: "(string \<rightharpoonup> caller list) flight_group" where
  "table_group =
     \<lparr>fg_enter = (\<lambda>key i g. case g key of None \<Rightarrow> (True, g(key \<mapsto> [])) | Some js \<Rightarrow> (False, g(key \<mapsto> i # js))),
      fg_leave = (\<lambda>key g. case g key of None \<Rightarrow> ([], g) | Some js \<Rightarrow> (js, g(key := None)))\<rparr>"

lemma table_group_law: "flight_law table_group Map.empty (\<lambda>g. map_option set \<circ> g)"
  by (auto simp: flight_law_def table_group_def intro!: ext split: option.splits)

lemma flight_lawD:
  assumes "flight_law G g0 waiting"
  shows "waiting g0 = Map.empty"
    and "fg_enter G key i g = (first, g') \<Longrightarrow> waiting g key = None \<Longrightarrow> first \<and> waiting g' = (waiting g)(key \<mapsto> {})"
    and "fg_enter G key i g = (first, g') \<Longrightarrow> waiting g key = Some W \<Longrightarrow>
      \<not> first \<and> waiting g' = (waiting g)(key \<mapsto> insert i W)"
    and "fg_leave G key g = (js, g') \<Longrightarrow> waiting g key = Some W \<Longrightarrow>
      set js = W \<and> waiting g' = (waiting g)(key := None)"
proof -
  show "waiting g0 = Map.empty" using assms by (simp add: flight_law_def)
  have enter: "case waiting g key of
         None \<Rightarrow> first \<and> waiting g' = (waiting g)(key \<mapsto> {})
       | Some W \<Rightarrow> \<not> first \<and> waiting g' = (waiting g)(key \<mapsto> insert i W)" if "fg_enter G key i g = (first, g')"
    using assms that unfolding flight_law_def by blast
  then show "fg_enter G key i g = (first, g') \<Longrightarrow> waiting g key = None \<Longrightarrow> first \<and> waiting g' = (waiting g)(key \<mapsto> {})"
    by fastforce
  from enter show "fg_enter G key i g = (first, g') \<Longrightarrow> waiting g key = Some W \<Longrightarrow>
      \<not> first \<and> waiting g' = (waiting g)(key \<mapsto> insert i W)"
    by fastforce
  show "fg_leave G key g = (js, g') \<Longrightarrow> waiting g key = Some W \<Longrightarrow>
      set js = W \<and> waiting g' = (waiting g)(key := None)"
    using assms unfolding flight_law_def by blast
qed

section \<open>One flight per key\<close>

text \<open>The code whose flight a caller leads.\<close>

fun leading :: "location \<Rightarrow> string option" where
  "leading (Recheck ctx code) = Some code"
| "leading (Query ctx code) = Some code"
| "leading (Rewrite ctx code res) = Some code"
| "leading (Leave ctx code res) = Some code"
| "leading _ = None"

fun awaiting :: "location \<Rightarrow> string option" where
  "awaiting (Waiting ctx code) = Some code"
| "awaiting _ = None"

definition leads :: "(caller \<rightharpoonup> location) \<Rightarrow> caller \<Rightarrow> string \<Rightarrow> bool" where
  "leads ls i code = (Option.bind (ls i) leading = Some code)"

definition awaits :: "(caller \<rightharpoonup> location) \<Rightarrow> caller \<Rightarrow> string \<Rightarrow> bool" where
  "awaits ls i code = (Option.bind (ls i) awaiting = Some code)"

text \<open>
  The group knows of a flight exactly while somebody leads it, nobody else does, and its waiting
  callers are the goroutines that wait.
\<close>

definition flights_ok :: "(string \<rightharpoonup> caller set) \<Rightarrow> (caller \<rightharpoonup> location) \<Rightarrow> bool" where
  "flights_ok W ls =
     ((\<forall>i j code. leads ls i code \<longrightarrow> leads ls j code \<longrightarrow> i = j)
      \<and> (\<forall>code. W (cache_key code) = (if \<exists>i. leads ls i code then Some {j. awaits ls j code} else None))
      \<and> (\<forall>j code. awaits ls j code \<longrightarrow> (\<exists>i. leads ls i code)))"

abbreviation flight_inv :: "('g \<Rightarrow> string \<rightharpoonup> caller set) \<Rightarrow> ('x, 'g) system \<Rightarrow> bool" where
  "flight_inv waiting s \<equiv> flights_ok (waiting (group s)) (callers s)"

text \<open>An action keeps its caller in, or out of, the flight it was in.\<close>

lemma action_roles:
  assumes "action E r l = Some m" and "m w = (Ret l', w')"
  shows "leading l' = leading l \<and> awaiting l' = None \<and> awaiting l = None"
proof (cases l)
  case (Start op)
  with assms show ?thesis
    by (cases op) (auto simp: get_lookup_def create_insert_def delete_row_def go_simps Let_def
        split: option.splits sum.splits prod.splits outcome.splits if_splits)
qed (use assms in \<open>auto simp: flight_recheck_def flight_query_def flight_rewrite_def create_store_def delete_entry_def
       go_simps split: option.splits sum.splits prod.splits outcome.splits if_splits\<close>)

lemma role_upd [simp]:
  "leads (ls(i \<mapsto> l)) j code = (if j = i then leading l = Some code else leads ls j code)"
  "awaits (ls(i \<mapsto> l)) j code = (if j = i then awaiting l = Some code else awaits ls j code)"
  by (auto simp: leads_def awaits_def)

lemma returned_roles [simp]:
  "leading (returned l res) = (case l of Leave _ _ _ \<Rightarrow> None | _ \<Rightarrow> leading l)" "awaiting (returned l res) = None"
  by (cases l; simp)+

lemma land_roles:
  "leads (land js res ls) j code \<longleftrightarrow> leads ls j code \<and> (j \<in> js \<longrightarrow> (\<forall>ctx c v. ls j \<noteq> Some (Leave ctx c v)))"
  "awaits (land js res ls) j code \<longleftrightarrow> awaits ls j code \<and> j \<notin> js"
  by (cases "ls j"; auto simp: leads_def awaits_def land_def split: location.splits)+

lemma not_both: "leads ls i code \<Longrightarrow> \<not> awaits ls i code'"
  by (cases "ls i"; cases "the (ls i)") (auto simp: leads_def awaits_def)

lemma flights_okI:
  assumes "\<And>i j code. leads ls i code \<Longrightarrow> leads ls j code \<Longrightarrow> i = j"
    and "\<And>i code. leads ls i code \<Longrightarrow> W (cache_key code) = Some {j. awaits ls j code}"
    and "\<And>code. \<forall>i. \<not> leads ls i code \<Longrightarrow> W (cache_key code) = None"
    and "\<And>j code. awaits ls j code \<Longrightarrow> \<exists>i. leads ls i code"
  shows "flights_ok W ls"
  using assms unfolding flights_ok_def by (metis (no_types, lifting))

lemma flights_okD:
  assumes "flights_ok W ls"
  shows "leads ls i code \<Longrightarrow> leads ls j code \<Longrightarrow> i = j"
    and "leads ls i code \<Longrightarrow> W (cache_key code) = Some {j. awaits ls j code}"
    and "\<forall>i. \<not> leads ls i code \<Longrightarrow> W (cache_key code) = None"
    and "awaits ls j code \<Longrightarrow> \<exists>i. leads ls i code"
  using assms unfolding flights_ok_def by (auto split: if_splits)

lemma flights_same: "flights_ok W ls \<Longrightarrow> leads ls' = leads ls \<Longrightarrow> awaits ls' = awaits ls \<Longrightarrow> flights_ok W ls'"
  by (simp add: flights_ok_def)

lemma flights_enter_first:
  assumes ok: "flights_ok W ls" and "ls i = Some (AtGroup ctx code)" and "\<forall>l. \<not> leads ls l code"
  shows "flights_ok (W(cache_key code \<mapsto> {})) (ls(i \<mapsto> Recheck ctx code))"
proof -
  note D = flights_okD [OF ok]
  have i0: "\<not> leads ls i c" "\<not> awaits ls i c" for c using assms(2) by (simp_all add: leads_def awaits_def)
  then have roles: "leads (ls(i \<mapsto> Recheck ctx code)) j c \<longleftrightarrow> leads ls j c \<or> j = i \<and> c = code"
    "awaits (ls(i \<mapsto> Recheck ctx code)) j c \<longleftrightarrow> awaits ls j c" for j c
    by auto
  show ?thesis
  proof (rule flights_okI, unfold roles, goal_cases)
    case (2 j c)
    have "{j. awaits ls j code} = {}" using D(4) assms(3) by blast
    with 2 D(2) show ?case by auto
  next
    case (1 i j c)
    then show ?case using D(1) assms(3) by metis
  next
    case (3 c)
    then have "c \<noteq> code" and "\<forall>j. \<not> leads ls j c" by blast+
    then show ?case using D(3) by simp
  next
    case (4 j c)
    then show ?case using D(4) by blast
  qed
qed

lemma flights_enter_waiting:
  assumes ok: "flights_ok W ls" and "ls i = Some (AtGroup ctx code)" and "leads ls l code"
  shows "flights_ok (W(cache_key code \<mapsto> insert i {j. awaits ls j code})) (ls(i \<mapsto> Waiting ctx code))"
proof -
  note D = flights_okD [OF ok]
  have i0: "\<not> leads ls i c" "\<not> awaits ls i c" for c using assms(2) by (simp_all add: leads_def awaits_def)
  then have roles: "leads (ls(i \<mapsto> Waiting ctx code)) j c \<longleftrightarrow> leads ls j c"
    "awaits (ls(i \<mapsto> Waiting ctx code)) j c \<longleftrightarrow> awaits ls j c \<or> j = i \<and> c = code" for j c
    by auto
  show ?thesis
    by (rule flights_okI, unfold roles) (use D assms(3) in auto)
qed

lemma flights_leave:
  assumes ok: "flights_ok W ls" and i: "ls i = Some (Leave ctx code res)"
  shows "flights_ok (W(cache_key code := None)) (land (insert i {j. awaits ls j code}) res ls)"
proof -
  let ?ls = "land (insert i {j. awaits ls j code}) res ls"
  note D = flights_okD [OF ok]
  have lead: "leads ls i code" and only: "leads ls i c \<longleftrightarrow> c = code" for c
    using i by (auto simp: leads_def)
  have "awaits ls j code \<Longrightarrow> \<not> leads ls j c" for j c using not_both by blast
  then have "leads ?ls j c \<longleftrightarrow> leads ls j c \<and> c \<noteq> code" for j c
  proof (cases "j = i")
    case True
    with i only show ?thesis by (simp add: land_roles)
  next
    case False
    with D(1) [OF lead, of j] have "\<not> leads ls j code" by blast
    with False \<open>\<And>j c. awaits ls j code \<Longrightarrow> \<not> leads ls j c\<close> [of j c] show ?thesis by (auto simp: land_roles)
  qed
  moreover have "awaits ls j code \<Longrightarrow> awaits ls j c \<longleftrightarrow> c = code" for j c by (auto simp: awaits_def)
  then have "awaits ?ls j c \<longleftrightarrow> awaits ls j c \<and> c \<noteq> code" for j c
    using not_both [OF lead] unfolding land_roles by auto
  ultimately have roles: "leads ?ls j c \<longleftrightarrow> leads ls j c \<and> c \<noteq> code" "awaits ?ls j c \<longleftrightarrow> awaits ls j c \<and> c \<noteq> code" for j c
    by blast+
  show ?thesis
  proof (rule flights_okI, unfold roles, goal_cases)
    case (1 i j c)
    then show ?case using D(1) by blast
  next
    case (2 i c)
    then show ?case using D(2) by auto
  next
    case (3 c)
    then show ?case using D(3) by auto
  next
    case (4 j c)
    then show ?case using D(4) by blast
  qed
qed

lemma leave_waiters:
  assumes "flight_law G g0 waiting" and "flight_inv waiting s"
    and "callers s i = Some (Leave ctx code res)" and "fg_leave G (cache_key code) (group s) = (js, g)"
  shows "set js = {j. awaits (callers s) j code} \<and> waiting g = (waiting (group s))(cache_key code := None)"
proof -
  have "leads (callers s) i code" using assms(3) by (simp add: leads_def)
  from flight_lawD(4) [OF assms(1,4) flights_okD(2) [OF assms(2) this]] show ?thesis .
qed

lemma flight_inv_step:
  assumes law: "flight_law G g0 waiting" and "sys_step E r G s s'" and inv: "flight_inv waiting s"
  shows "flight_inv waiting s'"
  using assms(2)
proof cases
  case (act i l m l' w)
  have "leads ((callers s)(i \<mapsto> l')) = leads (callers s)" "awaits ((callers s)(i \<mapsto> l')) = awaits (callers s)"
    using action_roles [OF act(3,4)] act(2) by (auto simp: leads_def awaits_def fun_eq_iff)
  with inv show ?thesis by (simp add: act(1) flights_same)
next
  case (enter i ctx code first g)
  show ?thesis
  proof (cases "\<exists>l. leads (callers s) l code")
    case True
    then obtain l where l: "leads (callers s) l code" ..
    from flight_lawD(3) [OF law enter(3) flights_okD(2) [OF inv l]] flights_enter_waiting [OF inv enter(2) l]
    show ?thesis by (simp add: enter(1))
  next
    case False
    with flight_lawD(2) [OF law enter(3) flights_okD(3) [OF inv]] flights_enter_first [OF inv enter(2)]
    show ?thesis by (simp add: enter(1))
  qed
next
  case (leave i ctx code res js g)
  with leave_waiters [OF law inv leave(2,3)] flights_leave [OF inv leave(2)] show ?thesis by simp
qed

lemma flight_inv_run:
  assumes "flight_law G g0 waiting" and "sys_run E V r G g0 w0 H s"
  shows "flight_inv waiting s"
  using assms(2)
proof induction
  case start
  show ?case using flight_lawD(1) [OF assms(1)] by (simp add: flights_ok_def leads_def awaits_def)
next
  case (arrive H s i op)
  then have "leads ((callers s)(i \<mapsto> Start op)) = leads (callers s)"
    and "awaits ((callers s)(i \<mapsto> Start op)) = awaits (callers s)"
    by (auto simp: leads_def awaits_def fun_eq_iff)
  from flights_same [OF arrive.IH this] show ?case by (simp add: fun_upd_def)
qed (rule flight_inv_step [OF assms(1)])

section \<open>What the callers are told\<close>

text \<open>
  PostgreSQL answers the queries whose context is not cancelled, given the cancelled requests
  \<open>C\<close>; other queries may fail.
\<close>

definition pg_live :: "'x env \<Rightarrow> 'x view \<Rightarrow> nat set \<Rightarrow> bool" where
  "pg_live E V C =
     (\<forall>ctx code x. \<not> cancelled C ctx \<longrightarrow>
        (if rows V x code = None then fst (pg_select E ctx code x) = Inl ErrNoRows
         else \<not> isl (fst (pg_select E ctx code x))))"

text \<open>An answer was true of the row at some moment of the history, and not due to a cancellation.\<close>

definition told :: "'x env \<Rightarrow> 'x view \<Rightarrow> nat set \<Rightarrow> (string \<rightharpoonup> url_row) list \<Rightarrow> string \<Rightarrow> repo_err + url \<Rightarrow> bool" where
  "told E V C H code res =
     ((\<exists>m \<in> set H. get_result (m code) res) \<and> (pg_live E V C \<longrightarrow> (\<forall>e. res = Inl e \<longrightarrow> e = ErrNotFound)))"

text \<open>Some change from one state of the table to the next one in the history was as described.\<close>

definition happened ::
  "(string \<rightharpoonup> url_row) list \<Rightarrow> ((string \<rightharpoonup> url_row) \<Rightarrow> (string \<rightharpoonup> url_row) \<Rightarrow> bool) \<Rightarrow> bool" where
  "happened H change = (\<exists>H1 H2 m m'. H = H1 @ m' # m # H2 \<and> change m m')"

definition text_ok :: "url \<Rightarrow> bool" where
  "text_ok u = (valid_utf8 (ShortCode u) \<and> valid_utf8 (OriginalURL u))"

text \<open>What is known at each location.\<close>

fun location_ok ::
  "'x env \<Rightarrow> 'x view \<Rightarrow> nat set \<Rightarrow> 'x cached_repository \<Rightarrow> (string \<rightharpoonup> url_row) list \<Rightarrow> location \<Rightarrow> bool" where
  "location_ok E V C r H (Start op) = op_ok (\<lambda>_. True) op"
| "location_ok E V C r H (Rewrite ctx code res) = (told E V C H code res \<and> (\<forall>u. res = Inr u \<longrightarrow> text_ok u))"
| "location_ok E V C r H (Leave ctx code res) = told E V C H code res"
| "location_ok E V C r H (StoreCreated ctx u u') =
     (cr_cache r \<noteq> None \<and> text_ok u' \<and> happened H (\<lambda>m m'. create_result u m m' (None, u')))"
| "location_ok E V C r H (Invalidate ctx code) =
     (cr_cache r \<noteq> None \<and> happened H (\<lambda>m m'. delete_result code m m' None))"
| "location_ok E V C r H (Done (OpGet ctx code) (ResGet res)) = told E V C H code res"
| "location_ok E V C r H (Done (OpCreate ctx u) (ResCreate res)) = happened H (\<lambda>m m'. create_result u m m' res)"
| "location_ok E V C r H (Done (OpDelete ctx code) (ResDelete res)) = happened H (\<lambda>m m'. delete_result code m m' res)"
| "location_ok E V C r H (Done _ _) = False"
| "location_ok E V C r H _ = True"

text \<open>Every entry on the node that owns its key was true at some moment of the history.\<close>

definition cache_seen :: "'x env \<Rightarrow> 'x view \<Rightarrow> 'x cached_repository \<Rightarrow> (string \<rightharpoonup> url_row) list \<Rightarrow> 'x \<Rightarrow> bool" where
  "cache_seen E V r H x =
     (\<forall>code c v. owner r (cache_key code) = Some c \<longrightarrow> entries V x c (cache_key code) = Some v \<longrightarrow>
        (\<exists>m \<in> set H. entry_ok E (m code) v))"

lemma happened_now: "change m m' \<Longrightarrow> happened (m' # m # H) change"
  unfolding happened_def by (metis append_Nil)

lemma happened_mono: "happened H change \<Longrightarrow> happened (m0 # H) change"
  unfolding happened_def by (metis append_Cons)

lemma happenedE:
  assumes "happened H change"
  obtains m m' where "m \<in> set H" and "m' \<in> set H" and "change m m'"
proof -
  from assms obtain H1 H2 m m' where "H = H1 @ m' # m # H2" "change m m'" unfolding happened_def by blast
  then show thesis by (intro that [of m m']) simp_all
qed

lemma told_mono: "told E V C H code res \<Longrightarrow> told E V C (m # H) code res"
  by (auto simp: told_def)

lemma location_ok_mono: "location_ok E V C r H l \<Longrightarrow> location_ok E V C r (m # H) l"
  by (induction E V C r H l rule: location_ok.induct) (auto intro: told_mono happened_mono)

lemma cache_seen_mono: "cache_seen E V r H x \<Longrightarrow> cache_seen E V r (m # H) x"
  by (fastforce simp: cache_seen_def)

lemma cache_seen_shrink: "cache_seen E V r H x \<Longrightarrow> entries_shrink V x x' \<Longrightarrow> cache_seen E V r H x'"
  unfolding cache_seen_def entries_shrink_def by (meson map_leD)

lemma cache_seen_keeps: "cache_seen E V r H x \<Longrightarrow> keeps V x x' \<Longrightarrow> cache_seen E V r H x'"
  by (simp add: keeps_def cache_seen_shrink)

lemma cache_seen_set:
  assumes "cache_seen E V r H x" and "set_effect V c (cache_key code) data x err x'"
    and "m \<in> set H" and "entry_ok E (m code) data"
  shows "cache_seen E V r H x'"
  using assms unfolding cache_seen_def set_effect_def by (metis cache_key_eq prod.inject)

lemma entry_told:
  "m \<in> set H \<Longrightarrow> entry_ok E (m code) v \<Longrightarrow> v = notFoundSentinel \<Longrightarrow> told E V C H code (Inl ErrNotFound)"
  "m \<in> set H \<Longrightarrow> entry_ok E (m code) v \<Longrightarrow> v \<noteq> notFoundSentinel \<Longrightarrow> json_Unmarshal E v = Some u \<Longrightarrow> told E V C H code (Inr u)"
  by (auto simp: told_def entry_ok_def get_result_def)

text \<open>The guarded Redis calls.\<close>

lemma cacheSet_seen:
  assumes "services_ok E V" and "owner r (cache_key code) = Some c" and "cache_seen E V r H (ext w)"
    and "m \<in> set H" and "entry_ok E (m code) data"
  shows "wp (cacheSet E r ctx (cache_key code) data ttl)
    (\<lambda>_ w'. rows V (ext w') = rows V (ext w) \<and> cache_seen E V r H (ext w')) w"
proof -
  let ?G = "\<lambda>(err :: redis_err option) x. rows V x = rows V (ext w) \<and> cache_seen E V r H x"
  have "wp (cacheSet E r ctx (cache_key code) data ttl)
    (\<lambda>_ w'. quiet w w' \<and> ((\<exists>err x. ?G err x \<and> keeps V x (ext w'))
       \<or> (fst (cb_before E (ext w)) \<noteq> None \<and> keeps V (ext w) (ext w')))) w"
    unfolding cacheSet_def Let_def
  proof (rule cache_command_wp [OF assms(1,2), where G = ?G])
    fix x err x'
    assume x: "keeps V (ext w) x"
      and set: "redis_Set E (WithTimeout ctx (cr_cacheTimeout r)) c (cache_key code) data ttl x = (err, x')"
    note eff = redis_Set_effect [OF assms(1) set]
    from cache_seen_set [OF cache_seen_keeps [OF assms(3) x] eff assms(4,5)] eff x
    show "?G err x'" by (simp add: set_effect_def keeps_def)
  qed
  then show ?thesis
    by (rule wp_mono) (use assms(3) in \<open>auto simp: keeps_def intro: cache_seen_shrink\<close>)
qed

lemma cacheDel_seen:
  assumes "services_ok E V" and "owner r (cache_key code) = Some c" and "cache_seen E V r H (ext w)"
  shows "wp (cacheDel E r ctx (cache_key code))
    (\<lambda>_ w'. rows V (ext w') = rows V (ext w) \<and> cache_seen E V r H (ext w')) w"
proof -
  let ?G = "\<lambda>(err :: redis_err option) x. keeps V (ext w) x"
  have "wp (cacheDel E r ctx (cache_key code))
    (\<lambda>_ w'. quiet w w' \<and> ((\<exists>err x. ?G err x \<and> keeps V x (ext w'))
       \<or> (fst (cb_before E (ext w)) \<noteq> None \<and> keeps V (ext w) (ext w')))) w"
    unfolding cacheDel_def Let_def
  proof (rule cache_command_wp [OF assms(1,2), where G = ?G])
    fix x err x'
    assume "keeps V (ext w) x" and "redis_Del E (WithTimeout ctx (cr_cacheTimeout r)) c (cache_key code) x = (err, x')"
    then show "?G err x'"
      using services_okD(6) [OF assms(1)] unfolding redis_del_law_def by (blast intro: keeps_trans)
  qed
  then show ?thesis
    by (rule wp_mono) (use assms(3) in \<open>auto simp: keeps_def intro: cache_seen_shrink\<close>)
qed

lemma cacheGet_seen:
  fixes w :: "'x world"
  assumes "services_ok E V" and "owner r (cache_key code) = Some c" and "cache_seen E V r H (ext w)"
    and hit: "\<And>v m x. m \<in> set H \<Longrightarrow> entry_ok E (m code) v \<Longrightarrow> keeps V (ext w) x \<Longrightarrow> wp (f (Inr v)) Q (w\<lparr>ext := x\<rparr>)"
    and miss: "\<And>err x. keeps V (ext w) x \<Longrightarrow> wp (f (Inl err)) Q (w\<lparr>ext := x\<rparr>)"
  shows "wp (go_bind (cacheGet E r ctx (cache_key code)) f) Q w"
  unfolding wp_bind
proof (rule wp_mono [OF cacheGet_wp [OF assms(1,2)]])
  fix res :: "cache_err + string" and w' :: "'x world"
  assume *: "(\<exists>x. w' = w\<lparr>ext := x\<rparr>) \<and> keeps V (ext w) (ext w')
    \<and> (\<forall>v. res = Inr v \<longrightarrow> entries V (ext w) c (cache_key code) = Some v)"
  then obtain x where x: "w' = w\<lparr>ext := x\<rparr>" "keeps V (ext w) x" by auto
  show "wp (f res) Q w'"
  proof (cases res)
    case (Inl err)
    with x miss show ?thesis by simp
  next
    case (Inr v)
    with * assms(2,3) obtain m where "m \<in> set H" "entry_ok E (m code) v" unfolding cache_seen_def by blast
    with Inr x hit show ?thesis by simp
  qed
qed

text \<open>A repository over PostgreSQL with a client for every key, and what holds after an action.\<close>

definition serving :: "'x env \<Rightarrow> 'x view \<Rightarrow> 'x cached_repository \<Rightarrow> bool" where
  "serving E V r = (services_ok E V \<and> cr_db r = URLRepository E \<and> clients_total r)"

definition after ::
  "'x env \<Rightarrow> 'x view \<Rightarrow> nat set \<Rightarrow> 'x cached_repository \<Rightarrow> (string \<rightharpoonup> url_row) list \<Rightarrow> location \<Rightarrow> 'x world \<Rightarrow> bool" where
  "after E V C r H l w =
     (cache_seen E V r (rows V (ext w) # H) (ext w) \<and> location_ok E V C r (rows V (ext w) # H) l)"

lemma afterI:
  "cache_seen E V r H (ext w) \<Longrightarrow> location_ok E V C r H l \<Longrightarrow> after E V C r H l w"
  by (simp add: after_def cache_seen_mono location_ok_mono)

lemma after_lookup:
  assumes "serving E V r" and "cache_seen E V r H (ext w)"
  shows "wp (get_lookup E r ctx code) (after E V C r H) w"
proof (cases "cr_cache r")
  case None
  then show ?thesis using assms(2) by (simp add: get_lookup_def wp_simps afterI)
next
  case (Some p)
  with assms(1) obtain c where c: "owner r (cache_key code) = Some c" and ok: "services_ok E V"
    using owner_total by (fastforce simp: serving_def)
  have seen: "cache_seen E V r H x" if "keeps V (ext w) x" for x
    by (rule cache_seen_keeps [OF assms(2) that])
  show ?thesis
    unfolding get_lookup_def Let_def Some option.case
    by (rule cacheGet_seen [OF ok c assms(2)])
       (auto simp: wp_simps seen entry_told intro!: afterI split: option.splits)
qed

lemma after_recheck:
  assumes "serving E V r" and "cache_seen E V r H (ext w)"
  shows "wp (flight_recheck E r ctx code) (after E V C r H) w"
proof (cases "cr_cache r = None")
  case True
  then show ?thesis using assms(2) by (simp add: flight_recheck_def wp_simps afterI)
next
  case False
  with assms(1) obtain c where c: "owner r (cache_key code) = Some c" and ok: "services_ok E V"
    using owner_total by (fastforce simp: serving_def)
  have seen: "cache_seen E V r H x" if "keeps V (ext w) x" for x
    by (rule cache_seen_keeps [OF assms(2) that])
  show ?thesis
    unfolding flight_recheck_def if_not_P [OF False]
    by (rule cacheGet_seen [OF ok c assms(2)])
       (auto simp: wp_simps seen entry_told intro!: afterI split: option.splits)
qed

text \<open>The query's context cannot be cancelled, so a live database answers it.\<close>

lemma db_get_live:
  assumes "pg_live E V C"
  shows "wp (URLRepository_GetByCode E (WithoutCancel ctx) code) (\<lambda>res w'. \<forall>e. res = Inl e \<longrightarrow> e = ErrNotFound) w"
proof -
  from assms have "if rows V (ext w) code = None then fst (pg_select E (WithoutCancel ctx) code (ext w)) = Inl ErrNoRows
      else \<not> isl (fst (pg_select E (WithoutCancel ctx) code (ext w)))"
    unfolding pg_live_def by (metis cancelled.simps(4))
  then show ?thesis
    by (auto simp: URLRepository_GetByCode_def wp_simps split: prod.splits sum.splits if_splits)
qed

lemma after_query:
  assumes "serving E V r" and "cache_seen E V r H (ext w)" and "rows V (ext w) \<in> set H"
  shows "wp (flight_query r ctx code) (after E V C r H) w"
proof -
  from assms(1) have ok: "services_ok E V" and db: "GetByCode (cr_db r) = URLRepository_GetByCode E"
    by (simp_all add: serving_def)
  show ?thesis
    unfolding flight_query_def wp_bind db
  proof (rule wp_mono [OF wp_imp_conj [OF db_get_wp [OF ok] db_get_live [of E V C]]])
    fix res w'
    assume 2: "((\<exists>x. w' = w\<lparr>ext := x\<rparr>) \<and> keeps V (ext w) (ext w') \<and> get_result (rows V (ext w) code) res
        \<and> (\<forall>u. res = Inr u \<longrightarrow> (\<exists>row. u = url_of_row row \<and> row_valid code row)))
      \<and> (pg_live E V C \<longrightarrow> (\<forall>e. res = Inl e \<longrightarrow> e = ErrNotFound))"
    then have "location_ok E V C r H (Rewrite ctx code res)"
      using assms(3) by (auto simp: told_def url_of_row_def row_valid_def text_ok_def intro: bexI)
    moreover have "cache_seen E V r H (ext w')" using 2 assms(2) by (blast intro: cache_seen_keeps)
    ultimately show "wp (go_then (emit (DbQueryDuration ''SELECT'')) (go_ret (Rewrite ctx code res))) (after E V C r H) w'"
      by (simp add: wp_simps after_def cache_seen_mono told_mono)
  qed
qed

lemma after_rewrite:
  assumes "serving E V r" and "cache_seen E V r H (ext w)" and "location_ok E V C r H (Rewrite ctx code res)"
  shows "wp (flight_rewrite E r ctx code res) (after E V C r H) w"
proof (cases "cr_cache r = None")
  case True
  then show ?thesis
    using assms(2,3) by (auto simp: flight_rewrite_def rewriteCache_def wp_simps intro!: afterI split: sum.splits)
next
  case False
  with assms(1) obtain c where c: "owner r (cache_key code) = Some c" and ok: "services_ok E V"
    using owner_total by (fastforce simp: serving_def)
  from assms(3) obtain m where m: "m \<in> set H" "get_result (m code) res" by (auto simp: told_def)
  note set = wp_mono [OF cacheSet_seen [OF ok c assms(2) m(1)]]
  show ?thesis
  proof (cases res)
    case (Inl err)
    have "entry_ok E (m code) notFoundSentinel" if "isNotFoundError err"
      using m(2) Inl that by (simp add: entry_ok_def get_result_def isNotFoundError_def)
    with Inl False assms(2,3) show ?thesis
      by (auto simp: flight_rewrite_def rewriteCache_def wp_simps intro!: set afterI)
  next
    case (Inr u)
    with m(2) obtain row where row: "m code = Some row" "url_matches u row" by (auto simp: get_result_def)
    have "entry_ok E (m code) data" if "json_Marshal E u = Some data" for data
      using marshalled_entry_ok [OF services_okD(8) [OF ok] that] row assms(3) Inr by (simp add: text_ok_def)
    with Inr False assms(2,3) show ?thesis
      by (auto simp: flight_rewrite_def rewriteCache_def store_url_def wp_simps split: option.splits intro!: set afterI)
  qed
qed

lemma after_insert:
  assumes "serving E V r" and "cache_seen E V r (rows V (ext w) # H) (ext w)" and "ClickCount u = 0"
  shows "wp (create_insert r ctx u) (after E V C r (rows V (ext w) # H)) w"
proof -
  from assms(1) have ok: "services_ok E V" and db: "Create (cr_db r) = URLRepository_Create E"
    by (simp_all add: serving_def)
  show ?thesis
    unfolding create_insert_def wp_bind db
  proof (rule wp_mono [OF db_create_wp [OF ok assms(3)]], goal_cases)
    case (1 res w')
    obtain err u' where res: "res = (err, u')" by force
    from 1 have "happened (rows V (ext w') # rows V (ext w) # H) (\<lambda>m m'. create_result u m m' res)"
      by (intro happened_now) simp
    then have ok: "location_ok E V C r (rows V (ext w') # rows V (ext w) # H) (Done (OpCreate ctx u) (ResCreate res))"
      and store: "err = None \<Longrightarrow> cr_cache r \<noteq> None \<Longrightarrow> location_ok E V C r (rows V (ext w') # rows V (ext w) # H) (StoreCreated ctx u u')"
      using 1 res by (auto simp: text_ok_def create_result_def)
    have "cache_seen E V r (rows V (ext w') # rows V (ext w) # H) (ext w')"
      using cache_seen_mono [OF cache_seen_shrink [OF assms(2)]] 1 by blast
    with ok store res show ?case by (auto simp: wp_simps after_def split: option.splits)
  qed
qed

lemma after_store:
  assumes "serving E V r" and "cache_seen E V r H (ext w)" and "location_ok E V C r H (StoreCreated ctx u u')"
  shows "wp (create_store E r ctx u u') (after E V C r H) w"
proof -
  from assms(1,3) obtain c where c: "owner r (cache_key (ShortCode u')) = Some c" and ok: "services_ok E V"
    using owner_total by (fastforce simp: serving_def)
  from assms(3) obtain m m' where "m' \<in> set H" and s: "create_result u m m' (None, u')" "text_ok u'"
    by (auto elim: happenedE)
  have "entry_ok E (m' (ShortCode u')) data" if "json_Marshal E u' = Some data" for data
    using marshalled_entry_ok [OF services_okD(8) [OF ok] that] s by (auto simp: text_ok_def create_result_def)
  then show ?thesis
    using assms(2,3)
    by (auto simp: create_store_def store_url_def wp_simps split: option.splits
        intro!: wp_mono [OF cacheSet_seen [OF ok c assms(2) \<open>m' \<in> set H\<close>]] afterI)
qed

lemma after_delete:
  assumes "serving E V r" and "cache_seen E V r (rows V (ext w) # H) (ext w)"
  shows "wp (delete_row r ctx code) (after E V C r (rows V (ext w) # H)) w"
proof -
  from assms(1) have ok: "services_ok E V" and db: "Delete (cr_db r) = URLRepository_Delete E"
    by (simp_all add: serving_def)
  show ?thesis
    unfolding delete_row_def wp_bind db
  proof (rule wp_mono [OF db_delete_wp [OF ok]], goal_cases)
    case (1 err w')
    from 1 have "happened (rows V (ext w') # rows V (ext w) # H) (\<lambda>m m'. delete_result code m m' err)"
      by (intro happened_now) simp
    moreover have "cache_seen E V r (rows V (ext w') # rows V (ext w) # H) (ext w')"
      using cache_seen_mono [OF cache_seen_shrink [OF assms(2)]] 1 by blast
    ultimately show ?case by (auto simp: wp_simps after_def split: option.splits)
  qed
qed

lemma after_invalidate:
  assumes "serving E V r" and "cache_seen E V r H (ext w)" and "location_ok E V C r H (Invalidate ctx code)"
  shows "wp (delete_entry E r ctx code) (after E V C r H) w"
proof -
  from assms(1,3) obtain c where c: "owner r (cache_key code) = Some c" and ok: "services_ok E V"
    using owner_total by (fastforce simp: serving_def)
  from assms(3) show ?thesis
    by (auto simp: delete_entry_def wp_simps intro!: wp_mono [OF cacheDel_seen [OF ok c assms(2)]] afterI)
qed

lemma action_after:
  assumes "serving E V r" and "cache_seen E V r (rows V (ext w) # H) (ext w)"
    and "location_ok E V C r (rows V (ext w) # H) l" and "action E r l = Some m"
  shows "wp m (after E V C r (rows V (ext w) # H)) w"
proof (cases l)
  case (Start op)
  with assms show ?thesis
    by (cases op) (auto simp: op_ok_def intro: after_lookup after_insert after_delete)
next
  case (Recheck ctx code)
  with assms show ?thesis by (auto intro: after_recheck)
next
  case (Query ctx code)
  with assms show ?thesis by (auto intro: after_query)
next
  case (Rewrite ctx code res)
  with assms show ?thesis using after_rewrite [OF assms(1,2)] by auto
next
  case (StoreCreated ctx u u')
  with assms show ?thesis using after_store [OF assms(1,2)] by auto
next
  case (Invalidate ctx code)
  with assms show ?thesis using after_invalidate [OF assms(1,2)] by auto
qed (use assms(4) in auto)

section \<open>The invariant of a run\<close>

definition sys_inv ::
  "'x env \<Rightarrow> 'x view \<Rightarrow> nat set \<Rightarrow> 'x cached_repository \<Rightarrow> (string \<rightharpoonup> url_row) list \<Rightarrow> ('x, 'g) system \<Rightarrow> bool" where
  "sys_inv E V C r H s =
     ((\<exists>H'. H = rows V (ext (shared s)) # H') \<and> cache_seen E V r H (ext (shared s))
      \<and> finite (dom (callers s)) \<and> (\<forall>i l. callers s i = Some l \<longrightarrow> location_ok E V C r H l))"

lemma sys_invD:
  assumes "sys_inv E V C r H s"
  shows "\<exists>H'. H = rows V (ext (shared s)) # H'" "cache_seen E V r H (ext (shared s))"
    "finite (dom (callers s))" "callers s i = Some l \<Longrightarrow> location_ok E V C r H l"
  using assms by (auto simp: sys_inv_def)

lemma sys_inv_act:
  assumes "serving E V r" and inv: "sys_inv E V C r H s"
    and "callers s i = Some l" and "action E r l = Some m" and "m (shared s) = (Ret l', w)"
  shows "sys_inv E V C r (rows V (ext w) # H) (s\<lparr>shared := w, callers := (callers s)(i \<mapsto> l')\<rparr>)"
proof -
  note D = sys_invD [OF inv]
  from D(1) obtain H' where H: "H = rows V (ext (shared s)) # H'" ..
  have "wp m (after E V C r H) (shared s)"
    using action_after [OF assms(1) D(2) [unfolded H] D(4) [OF assms(3), unfolded H] assms(4)] by (simp add: H)
  from wp_run [OF this assms(5)] have "after E V C r H l' w" .
  with D(3,4) show ?thesis by (auto simp: sys_inv_def after_def location_ok_mono)
qed

text \<open>A step that leaves the services alone needs only its callers checked.\<close>

lemma sys_inv_sync:
  assumes inv: "sys_inv E V C r H s" and "shared s' = shared s" and "dom (callers s') \<subseteq> insert i (dom (callers s))"
    and "\<And>j l. callers s' j = Some l \<Longrightarrow> callers s j \<noteq> Some l \<Longrightarrow> location_ok E V C r H l"
  shows "sys_inv E V C r H s'" and "sys_inv E V C r (rows V (ext (shared s')) # H) s'"
proof -
  have fin: "finite (dom (callers s'))"
    using inv assms(3) by (meson finite_insert finite_subset sys_inv_def)
  have at: "location_ok E V C r H l" if "callers s' j = Some l" for j l
    using inv assms(4) [OF that] that by (auto simp: sys_inv_def)
  show "sys_inv E V C r H s'" using inv fin at by (auto simp: sys_inv_def assms(2))
  show "sys_inv E V C r (rows V (ext (shared s')) # H) s'"
    using inv fin at by (auto simp: sys_inv_def assms(2) cache_seen_mono location_ok_mono)
qed

lemma sys_inv_step:
  assumes "serving E V r" and law: "flight_law G g0 waiting" and flights: "flight_inv waiting s"
    and inv: "sys_inv E V C r H s" and "sys_step E r G s s'"
  shows "sys_inv E V C r (rows V (ext (shared s')) # H) s'"
  using assms(5)
proof cases
  case (act i l m l' w)
  from sys_inv_act [OF assms(1) inv act(2-4)] show ?thesis by (simp add: act(1))
next
  case (enter i ctx code first g)
  then show ?thesis
    by (intro sys_inv_sync(2) [OF inv, where i = i]) (auto split: if_splits)
next
  case (leave i ctx code res js g)
  have told: "told E V C H code res" using inv leave(2) by (fastforce simp: sys_inv_def)
  have js: "set js = {j. awaits (callers s) j code}" using leave_waiters [OF law flights leave(2,3)] by blast
  have "location_ok E V C r H (returned l0 res)"
    if "callers s j = Some l0" "j = i \<or> j \<in> set js" for j l0
    using that leave(2) told by (cases l0) (auto simp: js awaits_def)
  then show ?thesis
    unfolding leave(1)
    by (intro sys_inv_sync(2) [OF inv, where i = i]) (auto simp: land_def split: if_splits)
qed

lemma sys_inv_run:
  assumes "serving E V r" and "flight_law G g0 waiting" and "coherent E V r (ext w0)"
    and "sys_run E V r G g0 w0 H s"
  shows "sys_inv E V C r H s"
  using assms(4)
proof induction
  case start
  show ?case using assms(3) by (auto simp: sys_inv_def cache_seen_def coherent_def coherent_at_def)
next
  case (arrive H s i op)
  then show ?case by (intro sys_inv_sync(1) [OF arrive.IH, where i = i]) (auto split: if_splits)
next
  case (step H s s')
  then show ?case
    using sys_inv_step [OF assms(1,2) flight_inv_run [OF assms(2) step.hyps(1)] step.IH step.hyps(2)] by simp
qed

section \<open>Every caller is answered\<close>

text \<open>How many more steps a caller can take.\<close>

fun remaining :: "location \<Rightarrow> nat" where
  "remaining (Start op) = 7"
| "remaining (AtGroup ctx code) = 6"
| "remaining (Recheck ctx code) = 5"
| "remaining (Query ctx code) = 4"
| "remaining (Rewrite ctx code res) = 3"
| "remaining (Leave ctx code res) = 2"
| "remaining (Done op res) = 0"
| "remaining _ = 1"

definition work :: "('x, 'g) system \<Rightarrow> nat" where
  "work s = (\<Sum>i \<in> dom (callers s). remaining (the (callers s i)))"

lemma action_remaining:
  assumes "action E r l = Some m" and "m w = (Ret l', w')"
  shows "remaining l' < remaining l"
proof (cases l)
  case (Start op)
  with assms show ?thesis
    by (cases op) (auto simp: get_lookup_def create_insert_def delete_row_def go_simps Let_def
        split: option.splits sum.splits prod.splits outcome.splits if_splits)
qed (use assms in \<open>auto simp: flight_recheck_def flight_query_def flight_rewrite_def create_store_def delete_entry_def
       go_simps split: option.splits sum.splits prod.splits outcome.splits if_splits\<close>)

lemma work_less:
  assumes "finite (dom (callers s))" and "dom (callers s') = dom (callers s)"
    and "\<And>j. j \<in> dom (callers s) \<Longrightarrow> remaining (the (callers s' j)) \<le> remaining (the (callers s j))"
    and "i \<in> dom (callers s)" and "remaining (the (callers s' i)) < remaining (the (callers s i))"
  shows "work s' < work s"
  unfolding work_def assms(2) using assms(1,3-5) by (intro sum_strict_mono_ex1) auto

lemma returned_remaining: "remaining (returned l res) \<le> remaining l"
  by (cases l) auto

lemma step_work:
  assumes "sys_step E r G s s'" and fin: "finite (dom (callers s))"
  shows "dom (callers s') = dom (callers s) \<and> work s' < work s"
  using assms(1)
proof cases
  case (act i l m l' w)
  then show ?thesis using action_remaining [OF act(3,4)]
    by (intro conjI work_less [OF fin, where i = i]) auto
next
  case (enter i ctx code first g)
  then show ?thesis by (intro conjI work_less [OF fin, where i = i]) auto
next
  case (leave i ctx code res js g)
  have dom: "dom (callers s') = dom (callers s)" by (auto simp: leave(1) land_def split: if_splits)
  moreover have "work s' < work s"
    by (rule work_less [OF fin dom, where i = i]) (use leave in \<open>auto simp: land_def returned_remaining\<close>)
  ultimately show ?thesis by blast
qed

lemma steps_work:
  assumes "(sys_step E r G ^^ n) s s'" and "finite (dom (callers s))"
  shows "dom (callers s') = dom (callers s) \<and> n + work s' \<le> work s"
  using assms(1)
proof (induction n arbitrary: s')
  case (Suc n)
  then obtain t where t: "(sys_step E r G ^^ n) s t" "sys_step E r G t s'" by auto
  from Suc.IH [OF t(1)] step_work [OF t(2)] assms(2) show ?case by auto
qed simp

lemma work_bound:
  assumes "finite (dom (callers s))"
  shows "work s \<le> 7 * card (dom (callers s))"
proof -
  have "remaining l \<le> 7" for l by (cases l) auto
  then show ?thesis using sum_bounded_above [of "dom (callers s)" "\<lambda>i. remaining (the (callers s i))" 7]
    by (simp add: work_def mult.commute)
qed

lemma acting_step:
  assumes "serving E V r" and inv: "sys_inv E V C r H s" and "callers s i = Some l" and "action E r l = Some m"
  shows "\<exists>s'. sys_step E r G s s'"
proof -
  note D = sys_invD [OF inv]
  from D(1) obtain H' where H: "H = rows V (ext (shared s)) # H'" ..
  from wp_returns [OF action_after [OF assms(1) D(2) [unfolded H] D(4) [OF assms(3), unfolded H] assms(4)]]
  obtain l' w where "m (shared s) = (Ret l', w)" by blast
  with assms(3,4) show ?thesis by (blast intro: sys_step.act)
qed

lemma leave_step: "callers s i = Some (Leave ctx code res) \<Longrightarrow> \<exists>s'. sys_step E r G s s'"
  by (metis surj_pair sys_step.leave)

lemma leader_step:
  assumes "serving E V r" and "sys_inv E V C r H s" and "leads (callers s) i code"
  shows "\<exists>s'. sys_step E r G s s'"
proof -
  from assms(3) obtain l where l: "callers s i = Some l" "leading l = Some code"
    by (auto simp: leads_def Option.bind_eq_Some_conv)
  then consider m where "action E r l = Some m" | ctx res where "l = Leave ctx code res" by (cases l) auto
  then show ?thesis using acting_step [OF assms(1,2) l(1)] leave_step l(1) by cases blast+
qed

lemma action_Start: "action E r (Start op) \<noteq> None"
  by (cases op) simp_all

lemma unfinished_step:
  assumes "serving E V r" and "sys_inv E V C r H s" and "flight_inv waiting s"
    and "callers s i = Some l" and "\<And>op res. l \<noteq> Done op res"
  shows "\<exists>s'. sys_step E r G s s'"
proof -
  consider (action) m where "action E r l = Some m" | (group) ctx code where "l = AtGroup ctx code"
    | (waiting) ctx code where "l = Waiting ctx code" | (leave) ctx code res where "l = Leave ctx code res"
    using assms(5) action_Start [of E r] by (cases l; (cases "action E r l"; auto)?)
  then show ?thesis
  proof cases
    case group
    with assms(4) show ?thesis by (metis surj_pair sys_step.enter)
  next
    case waiting
    with assms(4) have "awaits (callers s) i code" by (simp add: awaits_def)
    from flights_okD(4) [OF assms(3) this] show ?thesis using leader_step [OF assms(1,2)] by blast
  qed (use acting_step [OF assms(1,2,4)] leave_step assms(4) in blast)+
qed

lemma run_steps:
  assumes "(sys_step E r G)\<^sup>*\<^sup>* s s'" and "sys_run E V r G g0 w0 H s"
  shows "\<exists>H'. sys_run E V r G g0 w0 H' s'"
  using assms by (induction) (blast intro: sys_run.step)+

section \<open>A request on its own\<close>

text \<open>The methods are their actions in sequence.\<close>

lemma get_split:
  "CachedURLRepository_GetByCode E r ctx code =
     go_bind (get_lookup E r ctx code) (\<lambda>l.
       case l of Done _ (ResGet res) \<Rightarrow> go_ret res | _ \<Rightarrow> queryFromDBWithSingleflight E ctx r code)"
  by (auto simp: CachedURLRepository_GetByCode_def get_lookup_def Let_def go_simps emit_def fun_eq_iff
      split: option.splits sum.splits prod.splits outcome.splits)

lemma query_split:
  "queryFromDBWithSingleflight E ctx r code =
     go_bind (flight_recheck E r ctx code) (\<lambda>l.
       case l of
         Leave _ _ res \<Rightarrow> go_ret res
       | _ \<Rightarrow> go_bind (flight_query r ctx code) (\<lambda>l.
           case l of
             Rewrite _ _ res \<Rightarrow> go_bind (flight_rewrite E r ctx code res) (\<lambda>l. case l of Leave _ _ res \<Rightarrow> go_ret res)))"
  by (auto simp: queryFromDBWithSingleflight_def singleflight_callback_def flight_recheck_def flight_query_def
      flight_rewrite_def Let_def go_simps emit_def fun_eq_iff
      split: option.splits sum.splits prod.splits outcome.splits)

lemma create_split:
  "CachedURLRepository_Create E r ctx u =
     go_bind (create_insert r ctx u) (\<lambda>l.
       case l of
         Done _ (ResCreate res) \<Rightarrow> go_ret res
       | StoreCreated _ _ u' \<Rightarrow> go_bind (create_store E r ctx u u') (\<lambda>l. case l of Done _ (ResCreate res) \<Rightarrow> go_ret res))"
  by (auto simp: CachedURLRepository_Create_def create_insert_def create_store_def go_simps emit_def fun_eq_iff
      split: option.splits sum.splits prod.splits outcome.splits)

lemma delete_split:
  "CachedURLRepository_Delete E r ctx code =
     go_bind (delete_row r ctx code) (\<lambda>l.
       case l of
         Done _ (ResDelete res) \<Rightarrow> go_ret res
       | Invalidate _ _ \<Rightarrow> go_bind (delete_entry E r ctx code) (\<lambda>l. case l of Done _ (ResDelete res) \<Rightarrow> go_ret res))"
  by (auto simp: CachedURLRepository_Delete_def delete_row_def delete_entry_def go_simps emit_def fun_eq_iff
      split: option.splits sum.splits prod.splits outcome.splits)

lemmas action_locations = get_lookup_def flight_recheck_def flight_query_def flight_rewrite_def create_insert_def
  create_store_def delete_row_def delete_entry_def go_simps Let_def

lemma lookup_location:
  "get_lookup E r ctx code w = (Ret l, w') \<Longrightarrow> l = AtGroup ctx code \<or> (\<exists>res. l = Done (OpGet ctx code) (ResGet res))"
  "flight_recheck E r ctx code w = (Ret l, w') \<Longrightarrow> l = Query ctx code \<or> (\<exists>res. l = Leave ctx code res)"
  "flight_query r ctx code w = (Ret l, w') \<Longrightarrow> \<exists>res. l = Rewrite ctx code res"
  "flight_rewrite E r ctx code res w = (Ret l, w') \<Longrightarrow> \<exists>res'. l = Leave ctx code res'"
  "create_insert r ctx u w = (Ret l, w') \<Longrightarrow> (\<exists>u'. l = StoreCreated ctx u u') \<or> (\<exists>res. l = Done (OpCreate ctx u) (ResCreate res))"
  "create_store E r ctx u u' w = (Ret l, w') \<Longrightarrow> \<exists>res. l = Done (OpCreate ctx u) (ResCreate res)"
  "delete_row r ctx code w = (Ret l, w') \<Longrightarrow> l = Invalidate ctx code \<or> (\<exists>res. l = Done (OpDelete ctx code) (ResDelete res))"
  "delete_entry E r ctx code w = (Ret l, w') \<Longrightarrow> \<exists>res. l = Done (OpDelete ctx code) (ResDelete res)"
  by (auto simp: action_locations split: option.splits sum.splits prod.splits outcome.splits if_splits)

text \<open>The system with one caller moved.\<close>

definition moved :: "('x, 'g) system \<Rightarrow> caller \<Rightarrow> 'x world \<Rightarrow> 'g \<Rightarrow> location \<Rightarrow> ('x, 'g) system" where
  "moved s i w g l = \<lparr>shared = w, group = g, callers = (callers s)(i \<mapsto> l)\<rparr>"

lemma moved_here: "callers s i = Some l \<Longrightarrow> moved s i (shared s) (group s) l = s"
  by (simp add: moved_def fun_upd_idem)

lemma moved_act:
  assumes "action E r l = Some m" and "m w = (Ret l', w')"
  shows "sys_step E r G (moved s i w g l) (moved s i w' g l')"
  using sys_step.act [of "moved s i w g l" i l E r m l' w' G] assms by (simp add: moved_def)

lemma moved_enter:
  assumes "flight_law G g0 waiting" and "waiting g (cache_key code) = None"
  shows "\<exists>g'. sys_step E r G (moved s i w g (AtGroup ctx code)) (moved s i w g' (Recheck ctx code))
    \<and> waiting g' = (waiting g)(cache_key code \<mapsto> {})"
proof -
  obtain first g' where e: "fg_enter G (cache_key code) i g = (first, g')" by force
  from flight_lawD(2) [OF assms(1) e assms(2)] have "first" and "waiting g' = (waiting g)(cache_key code \<mapsto> {})" by auto
  with sys_step.enter [of "moved s i w g (AtGroup ctx code)" i ctx code G first g'] e show ?thesis
    by (auto simp: moved_def)
qed

lemma moved_leave:
  assumes "flight_law G g0 waiting" and "waiting g (cache_key code) = Some {}"
  shows "\<exists>g'. sys_step E r G (moved s i w g (Leave ctx code res)) (moved s i w g' (Done (OpGet ctx code) (ResGet res)))
    \<and> waiting g' = (waiting g)(cache_key code := None)"
proof -
  obtain js g' where e: "fg_leave G (cache_key code) g = (js, g')" by force
  from flight_lawD(4) [OF assms(1) e assms(2)] have "js = []" and w: "waiting g' = (waiting g)(cache_key code := None)" by auto
  moreover have "land {i} res ((callers s)(i \<mapsto> Leave ctx code res)) = (callers s)(i \<mapsto> Done (OpGet ctx code) (ResGet res))"
    by (auto simp: land_def)
  ultimately show ?thesis
    using sys_step.leave [of "moved s i w g (Leave ctx code res)" i ctx code res G js g'] e by (auto simp: moved_def)
qed

lemma go_bind_Ret: "go_bind m f w = (Ret x, w') \<Longrightarrow> \<exists>y w1. m w = (Ret y, w1) \<and> f y w1 = (Ret x, w')"
  by (auto simp: go_bind_def split: prod.splits outcome.splits)

lemma solo_callback:
  assumes "queryFromDBWithSingleflight E ctx r code w = (Ret res, w')"
  shows "(sys_step E r G)\<^sup>*\<^sup>* (moved s i w g (Recheck ctx code)) (moved s i w' g (Leave ctx code res))"
proof -
  from go_bind_Ret [OF assms [unfolded query_split]] obtain l w1
    where l: "flight_recheck E r ctx code w = (Ret l, w1)"
      and rest: "(case l of Leave _ _ res \<Rightarrow> go_ret res
       | _ \<Rightarrow> go_bind (flight_query r ctx code) (\<lambda>l.
           case l of Rewrite _ _ res \<Rightarrow> go_bind (flight_rewrite E r ctx code res) (\<lambda>l. case l of Leave _ _ res \<Rightarrow> go_ret res)))
         w1 = (Ret res, w')" by blast
  have step: "sys_step E r G (moved s i w g (Recheck ctx code)) (moved s i w1 g l)"
    by (rule moved_act, simp, rule l)
  from lookup_location(2) [OF l] show ?thesis
  proof
    assume lq: "l = Query ctx code"
    with rest obtain res1 w2 where q: "flight_query r ctx code w1 = (Ret (Rewrite ctx code res1), w2)"
      and rest2: "go_bind (flight_rewrite E r ctx code res1) (\<lambda>l. case l of Leave _ _ res \<Rightarrow> go_ret res) w2 = (Ret res, w')"
      by (auto dest!: go_bind_Ret) (fastforce dest: lookup_location(3))
    from go_bind_Ret [OF rest2] obtain l2 w3 where "flight_rewrite E r ctx code res1 w2 = (Ret l2, w3)"
      and "(case l2 of Leave _ _ res \<Rightarrow> go_ret res) w3 = (Ret res, w')" by blast
    with lookup_location(4) [OF this(1)] have rw: "flight_rewrite E r ctx code res1 w2 = (Ret (Leave ctx code res), w')"
      by (auto simp: go_simps)
    have "sys_step E r G (moved s i w1 g (Query ctx code)) (moved s i w2 g (Rewrite ctx code res1))"
      by (rule moved_act, simp, rule q)
    moreover have "sys_step E r G (moved s i w2 g (Rewrite ctx code res1)) (moved s i w' g (Leave ctx code res))"
      by (rule moved_act, simp, rule rw)
    ultimately show ?thesis using step lq by (meson converse_rtranclp_into_rtranclp r_into_rtranclp)
  next
    assume "\<exists>res. l = Leave ctx code res"
    with step rest show ?thesis by (auto simp: go_simps)
  qed
qed

lemma solo_get:
  assumes "flight_law G g0 waiting" and "waiting g (cache_key code) = None"
    and "CachedURLRepository_GetByCode E r ctx code w = (Ret res, w')"
  shows "\<exists>g'. (sys_step E r G)\<^sup>*\<^sup>* (moved s i w g (Start (OpGet ctx code))) (moved s i w' g' (Done (OpGet ctx code) (ResGet res)))
    \<and> waiting g' = waiting g"
proof -
  from go_bind_Ret [OF assms(3) [unfolded get_split]] obtain l w1
    where l: "get_lookup E r ctx code w = (Ret l, w1)"
      and rest: "(case l of Done _ (ResGet res) \<Rightarrow> go_ret res | _ \<Rightarrow> queryFromDBWithSingleflight E ctx r code) w1 = (Ret res, w')"
    by blast
  have step: "sys_step E r G (moved s i w g (Start (OpGet ctx code))) (moved s i w1 g l)"
    by (rule moved_act, simp, rule l)
  from lookup_location(1) [OF l] show ?thesis
  proof
    assume lg: "l = AtGroup ctx code"
    with rest have q: "queryFromDBWithSingleflight E ctx r code w1 = (Ret res, w')" by simp
    from moved_enter [OF assms(1,2)] obtain g1
      where e: "sys_step E r G (moved s i w1 g (AtGroup ctx code)) (moved s i w1 g1 (Recheck ctx code))"
        and w1: "waiting g1 = (waiting g)(cache_key code \<mapsto> {})" by blast
    then have "waiting g1 (cache_key code) = Some {}" by simp
    from moved_leave [OF assms(1) this] obtain g2
      where v: "sys_step E r G (moved s i w' g1 (Leave ctx code res)) (moved s i w' g2 (Done (OpGet ctx code) (ResGet res)))"
        and w2: "waiting g2 = (waiting g1)(cache_key code := None)" by blast
    have "waiting g2 = waiting g" using w1 w2 assms(2) by (simp add: fun_upd_idem)
    moreover have "(sys_step E r G)\<^sup>*\<^sup>* (moved s i w g (Start (OpGet ctx code))) (moved s i w' g2 (Done (OpGet ctx code) (ResGet res)))"
      using step lg e solo_callback [OF q, of G s i g1] v
      by (meson converse_rtranclp_into_rtranclp rtranclp.rtrancl_into_rtrancl)
    ultimately show ?thesis by blast
  next
    assume "\<exists>res. l = Done (OpGet ctx code) (ResGet res)"
    with step rest show ?thesis by (auto simp: go_simps intro!: exI [of _ g])
  qed
qed

lemma solo_create:
  assumes "CachedURLRepository_Create E r ctx u w = (Ret res, w')"
  shows "(sys_step E r G)\<^sup>*\<^sup>* (moved s i w g (Start (OpCreate ctx u))) (moved s i w' g (Done (OpCreate ctx u) (ResCreate res)))"
proof -
  from go_bind_Ret [OF assms [unfolded create_split]] obtain l w1
    where l: "create_insert r ctx u w = (Ret l, w1)"
      and rest: "(case l of Done _ (ResCreate res) \<Rightarrow> go_ret res
        | StoreCreated _ _ u' \<Rightarrow> go_bind (create_store E r ctx u u') (\<lambda>l. case l of Done _ (ResCreate res) \<Rightarrow> go_ret res))
          w1 = (Ret res, w')" by blast
  have step: "sys_step E r G (moved s i w g (Start (OpCreate ctx u))) (moved s i w1 g l)"
    by (rule moved_act, simp, rule l)
  from lookup_location(5) [OF l] show ?thesis
  proof
    assume "\<exists>u'. l = StoreCreated ctx u u'"
    then obtain u' where lu: "l = StoreCreated ctx u u'" ..
    with rest obtain l2 w2 where l2: "create_store E r ctx u u' w1 = (Ret l2, w2)"
      and "(case l2 of Done _ (ResCreate res) \<Rightarrow> go_ret res) w2 = (Ret res, w')" by (auto dest: go_bind_Ret)
    with lookup_location(6) [OF l2] have "l2 = Done (OpCreate ctx u) (ResCreate res)" "w2 = w'" by (auto simp: go_simps)
    moreover have "sys_step E r G (moved s i w1 g l) (moved s i w2 g l2)"
      unfolding lu by (rule moved_act, simp, rule l2)
    ultimately show ?thesis using step by (meson converse_rtranclp_into_rtranclp r_into_rtranclp)
  qed (use step rest in \<open>auto simp: go_simps\<close>)
qed

lemma solo_delete:
  assumes "CachedURLRepository_Delete E r ctx code w = (Ret res, w')"
  shows "(sys_step E r G)\<^sup>*\<^sup>* (moved s i w g (Start (OpDelete ctx code))) (moved s i w' g (Done (OpDelete ctx code) (ResDelete res)))"
proof -
  from go_bind_Ret [OF assms [unfolded delete_split]] obtain l w1
    where l: "delete_row r ctx code w = (Ret l, w1)"
      and rest: "(case l of Done _ (ResDelete res) \<Rightarrow> go_ret res
        | Invalidate _ _ \<Rightarrow> go_bind (delete_entry E r ctx code) (\<lambda>l. case l of Done _ (ResDelete res) \<Rightarrow> go_ret res))
          w1 = (Ret res, w')" by blast
  have step: "sys_step E r G (moved s i w g (Start (OpDelete ctx code))) (moved s i w1 g l)"
    by (rule moved_act, simp, rule l)
  from lookup_location(7) [OF l] show ?thesis
  proof
    assume ld: "l = Invalidate ctx code"
    with rest obtain l2 w2 where l2: "delete_entry E r ctx code w1 = (Ret l2, w2)"
      and "(case l2 of Done _ (ResDelete res) \<Rightarrow> go_ret res) w2 = (Ret res, w')" by (auto dest: go_bind_Ret)
    with lookup_location(8) [OF l2] have "l2 = Done (OpDelete ctx code) (ResDelete res)" "w2 = w'" by (auto simp: go_simps)
    moreover have "sys_step E r G (moved s i w1 g l) (moved s i w2 g l2)"
      unfolding ld by (rule moved_act, simp, rule l2)
    ultimately show ?thesis using step by (meson converse_rtranclp_into_rtranclp r_into_rtranclp)
  qed (use step rest in \<open>auto simp: go_simps\<close>)
qed

lemma solo_run:
  assumes "flight_law G g0 waiting" and "\<And>code. waiting g (cache_key code) = None"
    and "run_op (CachedURLRepository E r) op w = (Ret res, w')"
  shows "\<exists>g'. (sys_step E r G)\<^sup>*\<^sup>* (moved s i w g (Start op)) (moved s i w' g' (Done op res)) \<and> waiting g' = waiting g"
proof (cases op)
  case (OpGet ctx code)
  with assms(3) obtain v where "CachedURLRepository_GetByCode E r ctx code w = (Ret v, w')" "res = ResGet v"
    by (auto simp: go_simps split: prod.splits outcome.splits)
  with OpGet solo_get [OF assms(1,2)] show ?thesis by simp
next
  case (OpCreate ctx u)
  with assms(3) obtain v where "CachedURLRepository_Create E r ctx u w = (Ret v, w')" "res = ResCreate v"
    by (auto simp: go_simps split: prod.splits outcome.splits)
  with OpCreate show ?thesis by (auto intro!: solo_create exI [of _ g])
next
  case (OpDelete ctx code)
  with assms(3) obtain v where "CachedURLRepository_Delete E r ctx code w = (Ret v, w')" "res = ResDelete v"
    by (auto simp: go_simps split: prod.splits outcome.splits)
  with OpDelete show ?thesis by (auto intro!: solo_delete exI [of _ g])
qed

end
