(* ===== verification/Concurrent_Runs.thy ===== *)
theory Concurrent_Runs
  imports Concurrent_Repository
begin

text \<open>
  What concurrent requests to the cached repository can rely on: the properties of theory
  \<open>Concurrent_Repository\<close>'s runs, with concrete runs over the services of theory
  \<open>Sim_Services\<close>, and the two interleavings in which the cache ends up contradicting the table.
\<close>

section \<open>The simulated services\<close>

text \<open>The actions over the services of theory \<open>Sim_Services\<close>, for the concrete runs below.\<close>

abbreviation sim_owned :: "sim world \<Rightarrow> string \<Rightarrow> string option" where
  "sim_owned w code \<equiv> sim_entries (ext w) 7 (cache_key code)"

definition sim_write :: "string \<Rightarrow> string option \<Rightarrow> sim world \<Rightarrow> sim world" where
  "sim_write code v w =
     w\<lparr>ext := (ext w)\<lparr>sim_entries := (sim_entries (ext w))(7 := (sim_entries (ext w) 7)(cache_key code := v))\<rparr>\<rparr>"

definition counted :: "metric \<Rightarrow> sim world \<Rightarrow> sim world" where
  "counted m w = w\<lparr>metrics := metrics w @ [m]\<rparr>"

lemma sim_actions:
  fixes ctx code w
  defines "E \<equiv> sim_env False" and "r \<equiv> demo_repo False" and "n \<equiv> prov_NodeFor (ring_provider demo_ring) (cache_key code)"
  shows "sim_owned w code = None \<Longrightarrow> get_lookup E r ctx code w = (Ret (AtGroup ctx code), counted (CacheMisses n) w)"
    and "sim_owned w code = None \<Longrightarrow> flight_recheck E r ctx code w = (Ret (Query ctx code), w)"
    and "sim_rows (ext w) code = Some row \<Longrightarrow> row_valid code row \<Longrightarrow>
      flight_query r ctx code w = (Ret (Rewrite ctx code (Inr (url_of_row row))), counted (DbQueryDuration ''SELECT'') w)"
    and "sim_rows (ext w) code = None \<Longrightarrow>
      flight_query r ctx code w = (Ret (Rewrite ctx code (Inl ErrNotFound)), counted (DbQueryDuration ''SELECT'') w)"
    and "sim_Marshal u = Some d \<Longrightarrow> flight_rewrite E r ctx code (Inr u) w = (Ret (Leave ctx code (Inr u)), sim_write code (Some d) w)"
    and "flight_rewrite E r ctx code (Inl ErrNotFound) w = (Ret (Leave ctx code (Inl ErrNotFound)), sim_write code (Some notFoundSentinel) w)"
    and "sim_owned w code = Some d \<Longrightarrow> sim_Unmarshal d = Some u \<Longrightarrow> d \<noteq> notFoundSentinel \<Longrightarrow>
      get_lookup E r ctx code w = (Ret (Done (OpGet ctx code) (ResGet (Inr u))), counted (CacheHits n) w)"
    and "sim_owned w code = Some notFoundSentinel \<Longrightarrow>
      get_lookup E r ctx code w = (Ret (Done (OpGet ctx code) (ResGet (Inl ErrNotFound))), counted (CacheHits n) w)"
    and "delete_entry E r ctx code w = (Ret (Done (OpDelete ctx code) (ResDelete None)), sim_write code None w)"
  unfolding assms
  by (simp_all add: action_locations demo_eval url_of_row_def URLRepository_GetByCode_def rewriteCache_def isNotFoundError_def
      store_url_def counted_def sim_write_def split: option.splits)

definition sim_set_row :: "string \<Rightarrow> url_row option \<Rightarrow> sim world \<Rightarrow> sim world" where
  "sim_set_row code row w = w\<lparr>ext := (ext w)\<lparr>sim_rows := (sim_rows (ext w))(code := row)\<rparr>\<rparr>"

lemma sim_statements:
  fixes w :: "sim world"
  defines "E \<equiv> sim_env False" and "r \<equiv> demo_repo False"
  shows "sim_rows (ext w) code = Some row \<Longrightarrow> row_valid code row \<Longrightarrow>
      delete_row r ctx code w = (Ret (Invalidate ctx code), counted (DbQueryDuration ''DELETE'') (sim_set_row code None w))"
    and "sim_rows (ext w) ''x'' = None \<Longrightarrow>
      create_insert r ctx (demo_url ''x'') w = (Ret (StoreCreated ctx (demo_url ''x'') (demo_url ''x'')),
        counted (DbQueryDuration ''INSERT'') (sim_set_row ''x'' (Some (inserted_row 5 ''x'' ''http://a/'' (Time 0 0) None)) w))"
    and "sim_Marshal u = Some d \<Longrightarrow>
      create_store E r ctx u u w = (Ret (Done (OpCreate ctx u) (ResCreate (None, u))), sim_write (ShortCode u) (Some d) w)"
  unfolding assms
  by (simp_all add: action_locations demo_eval URLRepository_Create_def store_url_def counted_def sim_write_def sim_set_row_def
      demo_url_def in_range_def)

lemma sim_world_simps [simp]:
  "ext (counted m w) = ext w"
  "sim_owned (sim_write code v w) code' = (if code' = code then v else sim_owned w code')"
  "sim_rows (ext (sim_write code v w)) = sim_rows (ext w)"
  "sim_entries (ext (sim_set_row code row w)) = sim_entries (ext w)"
  "sim_rows (ext (sim_set_row code row w)) = (sim_rows (ext w))(code := row)"
  by (simp_all add: counted_def sim_write_def sim_set_row_def)

text \<open>The states the simulated gateway reaches with three callers.\<close>

definition sim_reach :: "sim world \<Rightarrow> sim world \<Rightarrow> (string \<rightharpoonup> caller list) \<Rightarrow> (caller \<rightharpoonup> location) \<Rightarrow> bool" where
  "sim_reach w0 w g ls =
     (\<exists>H. sys_run (sim_env False) sim_view (demo_repo False) table_group Map.empty w0 H
        \<lparr>shared = w, group = g, callers = ls\<rparr>)"

lemma sim_reach_arrive: "sim_reach w0 w g ls \<Longrightarrow> ls i = None \<Longrightarrow> op_ok (\<lambda>_. True) op \<Longrightarrow> sim_reach w0 w g (ls(i \<mapsto> Start op))"
  unfolding sim_reach_def by (fastforce dest: sys_run.arrive)

definition sim_fires :: "location \<Rightarrow> sim world \<Rightarrow> location \<Rightarrow> sim world \<Rightarrow> bool" where
  "sim_fires l w l' w' = (\<exists>m. action (sim_env False) (demo_repo False) l = Some m \<and> m w = (Ret l', w'))"

lemma sim_fires_simps [simp]:
  "sim_fires (Start (OpGet ctx code)) w l' w' = (get_lookup (sim_env False) (demo_repo False) ctx code w = (Ret l', w'))"
  "sim_fires (Start (OpCreate ctx u)) w l' w' = (create_insert (demo_repo False) ctx u w = (Ret l', w'))"
  "sim_fires (Start (OpDelete ctx code)) w l' w' = (delete_row (demo_repo False) ctx code w = (Ret l', w'))"
  "sim_fires (Recheck ctx code) w l' w' = (flight_recheck (sim_env False) (demo_repo False) ctx code w = (Ret l', w'))"
  "sim_fires (Query ctx code) w l' w' = (flight_query (demo_repo False) ctx code w = (Ret l', w'))"
  "sim_fires (Rewrite ctx code res) w l' w' = (flight_rewrite (sim_env False) (demo_repo False) ctx code res w = (Ret l', w'))"
  "sim_fires (StoreCreated ctx u u') w l' w' = (create_store (sim_env False) (demo_repo False) ctx u u' w = (Ret l', w'))"
  "sim_fires (Invalidate ctx code) w l' w' = (delete_entry (sim_env False) (demo_repo False) ctx code w = (Ret l', w'))"
  by (simp_all add: sim_fires_def)

lemma sim_step_act:
  assumes "ls i = Some l" and "sim_fires l w l' w'"
  shows "sys_step (sim_env False) (demo_repo False) G \<lparr>shared = w, group = g, callers = ls\<rparr>
    \<lparr>shared = w', group = g, callers = ls(i \<mapsto> l')\<rparr>"
proof -
  from assms(2) obtain m where "action (sim_env False) (demo_repo False) l = Some m" "m w = (Ret l', w')"
    by (auto simp: sim_fires_def)
  with sys_step.act [of "\<lparr>shared = w, group = g, callers = ls\<rparr>" i l "sim_env False" "demo_repo False" m l' w' G] assms(1)
  show ?thesis by simp
qed

lemma sim_reach_act:
  assumes "sim_reach w0 w g ls" and "ls i = Some l" and "sim_fires l w l' w'"
  shows "sim_reach w0 w' g (ls(i \<mapsto> l'))"
proof -
  have step: "sys_step (sim_env False) (demo_repo False) table_group \<lparr>shared = w, group = g, callers = ls\<rparr>
      \<lparr>shared = w', group = g, callers = ls(i \<mapsto> l')\<rparr>"
    using assms(2,3) by (rule sim_step_act)
  from assms(1) show ?thesis unfolding sim_reach_def by (meson step sys_run.step)
qed

lemma sim_reach_enter:
  assumes "sim_reach w0 w g ls" and "ls i = Some (AtGroup ctx code)"
  shows "case g (cache_key code) of
      None \<Rightarrow> sim_reach w0 w (g(cache_key code \<mapsto> [])) (ls(i \<mapsto> Recheck ctx code))
    | Some js \<Rightarrow> sim_reach w0 w (g(cache_key code \<mapsto> i # js)) (ls(i \<mapsto> Waiting ctx code))"
  using assms sys_step.enter [of "\<lparr>shared = w, group = g, callers = ls\<rparr>" i ctx code table_group]
  unfolding sim_reach_def by (fastforce simp: table_group_def split: option.splits dest: sys_run.step)

lemma sim_reach_leave:
  assumes "sim_reach w0 w g ls" and "ls i = Some (Leave ctx code res)" and "g (cache_key code) = Some js"
  shows "sim_reach w0 w (g(cache_key code := None)) (land (insert i (set js)) res ls)"
  using assms sys_step.leave [of "\<lparr>shared = w, group = g, callers = ls\<rparr>" i ctx code res table_group js]
  unfolding sim_reach_def by (fastforce simp: table_group_def dest: sys_run.step)

lemma sim_flight:
  assumes "sim_owned w ''x'' = None"
  shows "sim_reach w (counted (CacheMisses (prov_NodeFor (ring_provider demo_ring) (cache_key ''x''))) w)
    [cache_key ''x'' \<mapsto> []] [1 \<mapsto> Query Background ''x'']"
proof -
  let ?w = "counted (CacheMisses (prov_NodeFor (ring_provider demo_ring) (cache_key ''x''))) w"
  have "sim_reach w w Map.empty Map.empty"
    unfolding sim_reach_def by (rule exI) (rule sys_run.start)
  then have "sim_reach w w Map.empty [1 \<mapsto> Start (OpGet Background ''x'')]"
    by (rule sim_reach_arrive) (simp_all add: op_ok_def)
  then have "sim_reach w ?w Map.empty ([1 \<mapsto> Start (OpGet Background ''x'')](1 \<mapsto> AtGroup Background ''x''))"
    by (rule sim_reach_act, simp, simp add: sim_actions assms)
  then have "sim_reach w ?w [cache_key ''x'' \<mapsto> []] [1 \<mapsto> Recheck Background ''x'']"
    using sim_reach_enter [of w ?w Map.empty _ 1] by force
  then have "sim_reach w ?w [cache_key ''x'' \<mapsto> []] ([1 \<mapsto> Recheck Background ''x''](1 \<mapsto> Query Background ''x''))"
    by (rule sim_reach_act, simp, simp add: sim_actions assms)
  then show ?thesis by simp
qed

text \<open>A table with one row and an empty cache.\<close>

definition one_row :: url_row where
  "one_row = inserted_row 5 ''x'' ''http://a/'' (Time 0 0) None"

definition race_world :: "sim world" where
  "race_world = sim_set_row ''x'' (Some one_row) demo_world"

lemma one_row_valid: "row_valid ''x'' one_row" "url_of_row one_row = demo_url ''x''"
  unfolding one_row_def
  by (intro row_valid_inserted) (simp_all add: in_range_def url_of_row_def inserted_row_def demo_url_def)

lemma race_start:
  "sim_rows (ext race_world) ''x'' = Some one_row" "sim_owned race_world code = None"
  "sim_rows (ext demo_world) = Map.empty" "sim_owned demo_world code = None"
  by (simp_all add: race_world_def demo_world_def sim_start_def)

lemma demo_data:
  obtains d where "sim_Marshal (demo_url ''x'') = Some d" "sim_Unmarshal d = Some (demo_url ''x'')" "d \<noteq> notFoundSentinel"
  using demo_marshal sim_Unmarshal_Marshal marshal_not_sentinel by metis

section \<open>Properties\<close>



text \<open>
  C2: Under any interleaving, with Redis failing, losing entries or cut off by the breaker at will,
  every finished request was told the truth about some moment of the run: a read returns what the
  row was, or that there was none; a creation or deletion reports a change the table really went
  through. A read never fails because some request was cancelled: as long as the database answers
  queries that are not cancelled, a URL or not-found is all it returns.
\<close>

theorem concurrent_answers_true:
  assumes "serving E V r" and "flight_law G g0 waiting" and "coherent E V r (ext w0)"
    and "sys_run E V r G g0 w0 H s" and "callers s i = Some (Done op res)"
  shows "case (op, res) of
      (OpGet ctx code, ResGet v) \<Rightarrow>
        (\<exists>m \<in> set H. get_result (m code) v) \<and> (pg_live E V C \<longrightarrow> v \<noteq> Inl ErrNotFound \<longrightarrow> \<not> isl v)
    | (OpCreate ctx u, ResCreate v) \<Rightarrow> happened H (\<lambda>m m'. create_result u m m' v)
    | (OpDelete ctx code, ResDelete v) \<Rightarrow> happened H (\<lambda>m m'. delete_result code m m' v)
    | _ \<Rightarrow> False"
proof -
  have "location_ok E V C r H (Done op res)" using sys_invD(4) [OF sys_inv_run [OF assms(1-4)] assms(5)] .
  then show ?thesis by (cases op; cases res) (auto simp: told_def isl_def)
qed

text \<open>
  C8: Every request is answered: whatever has happened so far, without further arrivals the
  goroutines can take at most seven steps each, and when none can move any more all of them have
  returned. No wait on a shared result is forgotten and nothing blocks or panics.
\<close>

theorem every_caller_is_answered:
  assumes "serving E V r" and "flight_law G g0 waiting" and "coherent E V r (ext w0)"
    and "sys_run E V r G g0 w0 H s" and "(sys_step E r G ^^ n) s s'"
  shows "n \<le> 7 * card (dom (callers s))
    \<and> ((\<exists>s''. sys_step E r G s' s'') \<or> (\<forall>i \<in> dom (callers s). \<exists>op res. callers s' i = Some (Done op res)))"
proof -
  have fin: "finite (dom (callers s))" using sys_invD(3) [OF sys_inv_run [OF assms(1-4)]] .
  note steps = steps_work [OF assms(5) fin]
  obtain H' where run: "sys_run E V r G g0 w0 H' s'" using run_steps [OF relpowp_imp_rtranclp [OF assms(5)] assms(4)] ..
  have "\<exists>s''. sys_step E r G s' s''" if "callers s' i = Some l" "\<And>op res. l \<noteq> Done op res" for i l
    using unfinished_step [where E = E and V = V and r = r and s = s' and waiting = waiting and i = i and l = l]
      assms(1) sys_inv_run [OF assms(1-3) run, of "{}"] flight_inv_run [OF assms(2) run] that by blast
  then have "(\<exists>s''. sys_step E r G s' s'') \<or> (\<forall>i \<in> dom (callers s'). \<exists>op res. callers s' i = Some (Done op res))" by blast
  with steps work_bound [OF fin] show ?thesis by auto
qed


text \<open>The demonstration gateway with one request that has just arrived.\<close>

definition arrived :: "repo_op \<Rightarrow> (sim, string \<rightharpoonup> caller list) system" where
  "arrived op = \<lparr>shared = demo_world, group = Map.empty, callers = [1 \<mapsto> Start op]\<rparr>"

lemma arrived_run: "op_ok (\<lambda>_. True) op \<Longrightarrow>
  sys_run (sim_env False) sim_view (demo_repo False) table_group Map.empty demo_world [rows sim_view (ext demo_world)] (arrived op)"
  using sys_run.arrive [OF sys_run.start, where i = 1 and op = op] by (fastforce simp: arrived_def)

lemma demo_serving: "serving (sim_env b) sim_view (demo_repo b)"
  by (simp add: serving_def sim_ok demo_repo_fields demo_clients)

lemma demo_get: "\<exists>v w. run_op (CachedURLRepository (sim_env False) (demo_repo False)) (OpGet Background ''x'') demo_world = (Ret (ResGet v), w)"
  using cached_repo.get_spec [OF demo_inv, of Background "''x''"]
  by (auto simp: wp_def go_simps split: prod.splits outcome.splits)


lemma demo_finished:
  "\<exists>v n s'. (sys_step (sim_env False) (demo_repo False) table_group ^^ n) (arrived (OpGet Background ''x'')) s'
     \<and> callers s' 1 = Some (Done (OpGet Background ''x'') (ResGet v))"
proof -
  obtain v w where run: "run_op (CachedURLRepository (sim_env False) (demo_repo False)) (OpGet Background ''x'') demo_world = (Ret (ResGet v), w)"
    using demo_get by blast
  let ?s = "arrived (OpGet Background ''x'')"
  have "moved ?s 1 demo_world Map.empty (Start (OpGet Background ''x'')) = ?s" by (simp add: moved_def arrived_def)
  with solo_run [OF table_group_law _ run, of Map.empty ?s 1] show ?thesis
    by (auto simp: moved_def dest!: rtranclp_imp_relpowp) fastforce
qed

theorem every_caller_is_answered_witness:
  "\<exists>n s' v. (sys_step (sim_env False) (demo_repo False) table_group ^^ n) (arrived (OpGet Background ''x'')) s'
     \<and> n \<le> 7 \<and> callers s' 1 = Some (Done (OpGet Background ''x'') (ResGet v))"
proof -
  obtain v n s' where s': "(sys_step (sim_env False) (demo_repo False) table_group ^^ n) (arrived (OpGet Background ''x'')) s'"
    "callers s' 1 = Some (Done (OpGet Background ''x'') (ResGet v))" using demo_finished by blast
  have run: "sys_run (sim_env False) sim_view (demo_repo False) table_group Map.empty demo_world [rows sim_view (ext demo_world)]
      (arrived (OpGet Background ''x''))" by (rule arrived_run) (simp add: op_ok_def)
  from every_caller_is_answered [OF demo_serving table_group_law demo_coherent run s'(1)] s' show ?thesis
    by (auto simp: arrived_def)
qed

theorem concurrent_answers_true_witness:
  "\<exists>H s v. sys_run (sim_env False) sim_view (demo_repo False) table_group Map.empty demo_world H s
     \<and> callers s 1 = Some (Done (OpGet Background ''x'') (ResGet v)) \<and> (\<exists>m \<in> set H. get_result (m ''x'') v)"
proof -
  obtain v n s' where s': "(sys_step (sim_env False) (demo_repo False) table_group ^^ n) (arrived (OpGet Background ''x'')) s'"
    "callers s' 1 = Some (Done (OpGet Background ''x'') (ResGet v))" using demo_finished by blast
  have "sys_run (sim_env False) sim_view (demo_repo False) table_group Map.empty demo_world [rows sim_view (ext demo_world)]
      (arrived (OpGet Background ''x''))" by (rule arrived_run) (simp add: op_ok_def)
  from run_steps [OF relpowp_imp_rtranclp [OF s'(1)] this] obtain H
    where run: "sys_run (sim_env False) sim_view (demo_repo False) table_group Map.empty demo_world H s'" ..
  from concurrent_answers_true [OF demo_serving table_group_law demo_coherent run s'(2), of "{}"]
  have "\<exists>m \<in> set H. get_result (m ''x'') v" by simp
  with run s'(2) show ?thesis by blast
qed

text \<open>
  C33: A cache fill that crosses a deletion revives the deleted URL: a reader misses the cache and
  reads the row; the URL is deleted, row and entry, and the deletion is reported as successful; then
  the reader stores what it has read. A request that arrives later is answered with the deleted URL.
  All services work and every cache write is acknowledged.
\<close>

theorem fill_crosses_deletion:
  "\<exists>H s s'. sys_run (sim_env False) sim_view (demo_repo False) table_group Map.empty race_world H s
     \<and> callers s 2 = Some (Done (OpDelete Background ''x'') (ResDelete None)) \<and> callers s 3 = None
     \<and> (sys_step (sim_env False) (demo_repo False) table_group)\<^sup>*\<^sup>*
          (s\<lparr>callers := (callers s)(3 \<mapsto> Start (OpGet Background ''x''))\<rparr>) s'
     \<and> callers s' 3 = Some (Done (OpGet Background ''x'') (ResGet (Inr (demo_url ''x''))))
     \<and> rows sim_view (ext (shared s')) ''x'' = None"
proof -
  let ?n = "prov_NodeFor (ring_provider demo_ring) (cache_key ''x'')" and ?g = "[cache_key ''x'' \<mapsto> []]"
  let ?u = "demo_url ''x''" and ?reach = "sim_reach race_world"
  obtain d where d: "sim_Marshal ?u = Some d" "sim_Unmarshal d = Some ?u" "d \<noteq> notFoundSentinel" by (rule demo_data)
  let ?w1 = "counted (CacheMisses ?n) race_world"
  let ?w2 = "counted (DbQueryDuration ''SELECT'') ?w1"
  let ?w3 = "counted (DbQueryDuration ''DELETE'') (sim_set_row ''x'' None ?w2)"
  let ?w5 = "sim_write ''x'' (Some d) (sim_write ''x'' None ?w3)"
  let ?ls = "[1 \<mapsto> Rewrite Background ''x'' (Inr ?u), 2 \<mapsto> Done (OpDelete Background ''x'') (ResDelete None)]"
  have "?reach ?w1 ?g [1 \<mapsto> Query Background ''x'']" by (rule sim_flight [OF race_start(2)])
  then have "?reach ?w2 ?g ([1 \<mapsto> Query Background ''x''](1 \<mapsto> Rewrite Background ''x'' (Inr ?u)))"
    by (rule sim_reach_act, simp, simp add: sim_actions(3) race_start one_row_valid)
  then have "?reach ?w2 ?g ([1 \<mapsto> Rewrite Background ''x'' (Inr ?u)](2 \<mapsto> Start (OpDelete Background ''x'')))"
    using sim_reach_arrive [of race_world ?w2 ?g _ 2] by (simp add: op_ok_def)
  then have "?reach ?w3 ?g ([1 \<mapsto> Rewrite Background ''x'' (Inr ?u), 2 \<mapsto> Start (OpDelete Background ''x'')](2 \<mapsto> Invalidate Background ''x''))"
    by (rule sim_reach_act, simp, simp add: sim_statements(1) race_start one_row_valid)
  then have "?reach ?w3 ?g [1 \<mapsto> Rewrite Background ''x'' (Inr ?u), 2 \<mapsto> Invalidate Background ''x'']" by simp
  then have "?reach (sim_write ''x'' None ?w3) ?g ([1 \<mapsto> Rewrite Background ''x'' (Inr ?u), 2 \<mapsto> Invalidate Background ''x'']
      (2 \<mapsto> Done (OpDelete Background ''x'') (ResDelete None)))"
    by (rule sim_reach_act, simp, simp add: sim_actions(9))
  then have "?reach (sim_write ''x'' None ?w3) ?g ?ls" by simp
  then have filled: "?reach ?w5 ?g (?ls(1 \<mapsto> Leave Background ''x'' (Inr ?u)))"
    by (rule sim_reach_act, simp, simp add: sim_actions(5) d)
  let ?s = "\<lparr>shared = ?w5, group = ?g, callers = ?ls(1 \<mapsto> Leave Background ''x'' (Inr ?u), 3 \<mapsto> Start (OpGet Background ''x''))\<rparr>"
  have "sys_step (sim_env False) (demo_repo False) table_group ?s
      \<lparr>shared = counted (CacheHits ?n) ?w5, group = ?g,
       callers = (callers ?s)(3 \<mapsto> Done (OpGet Background ''x'') (ResGet (Inr ?u)))\<rparr>"
    using sim_step_act [of "callers ?s" 3 "Start (OpGet Background ''x'')" ?w5 _ _ table_group ?g] by (simp add: sim_actions(7) d)
  then show ?thesis
    using filled unfolding sim_reach_def
    by (elim exE, intro exI conjI) (assumption, simp, simp, rule r_into_rtranclp, simp, simp_all add: sim_view_def race_start)
qed

text \<open>
  C34: A negative entry that crosses a creation hides the new URL: a reader finds no row; the URL is
  created and the creation reported as successful, row and entry written; then the reader overwrites
  the entry with the not-found sentinel. A request that arrives later is told that there is no such
  URL although its row is in the table.
\<close>

theorem negative_entry_crosses_creation:
  "\<exists>H s s'. sys_run (sim_env False) sim_view (demo_repo False) table_group Map.empty demo_world H s
     \<and> callers s 2 = Some (Done (OpCreate Background (demo_url ''x'')) (ResCreate (None, demo_url ''x''))) \<and> callers s 3 = None
     \<and> (sys_step (sim_env False) (demo_repo False) table_group)\<^sup>*\<^sup>*
          (s\<lparr>callers := (callers s)(3 \<mapsto> Start (OpGet Background ''x''))\<rparr>) s'
     \<and> callers s' 3 = Some (Done (OpGet Background ''x'') (ResGet (Inl ErrNotFound)))
     \<and> rows sim_view (ext (shared s')) ''x'' = Some one_row"
proof -
  let ?n = "prov_NodeFor (ring_provider demo_ring) (cache_key ''x'')" and ?g = "[cache_key ''x'' \<mapsto> []]"
  let ?u = "demo_url ''x''" and ?reach = "sim_reach demo_world" and ?none = "Inl ErrNotFound :: repo_err + url"
  obtain d where d: "sim_Marshal ?u = Some d" "sim_Unmarshal d = Some ?u" "d \<noteq> notFoundSentinel" by (rule demo_data)
  let ?w1 = "counted (CacheMisses ?n) demo_world"
  let ?w2 = "counted (DbQueryDuration ''SELECT'') ?w1"
  let ?w3 = "counted (DbQueryDuration ''INSERT'') (sim_set_row ''x'' (Some one_row) ?w2)"
  let ?w4 = "sim_write ''x'' (Some d) ?w3"
  let ?w5 = "sim_write ''x'' (Some notFoundSentinel) ?w4"
  let ?ls = "[1 \<mapsto> Rewrite Background ''x'' ?none, 2 \<mapsto> Done (OpCreate Background ?u) (ResCreate (None, ?u))]"
  have "?reach ?w1 ?g [1 \<mapsto> Query Background ''x'']" by (rule sim_flight [OF race_start(4)])
  then have "?reach ?w2 ?g ([1 \<mapsto> Query Background ''x''](1 \<mapsto> Rewrite Background ''x'' ?none))"
    by (rule sim_reach_act, simp, simp add: sim_actions(4) race_start)
  then have "?reach ?w2 ?g ([1 \<mapsto> Rewrite Background ''x'' ?none](2 \<mapsto> Start (OpCreate Background ?u)))"
    using sim_reach_arrive [of demo_world ?w2 ?g _ 2] by (simp add: op_ok_def demo_url_def)
  then have "?reach ?w3 ?g ([1 \<mapsto> Rewrite Background ''x'' ?none, 2 \<mapsto> Start (OpCreate Background ?u)](2 \<mapsto> StoreCreated Background ?u ?u))"
    by (rule sim_reach_act, simp, simp add: sim_statements(2) race_start one_row_def)
  then have "?reach ?w3 ?g [1 \<mapsto> Rewrite Background ''x'' ?none, 2 \<mapsto> StoreCreated Background ?u ?u]" by simp
  then have "?reach ?w4 ?g ([1 \<mapsto> Rewrite Background ''x'' ?none, 2 \<mapsto> StoreCreated Background ?u ?u]
      (2 \<mapsto> Done (OpCreate Background ?u) (ResCreate (None, ?u))))"
    by (rule sim_reach_act, simp, simp add: sim_statements(3) d) (simp add: demo_url_def)
  then have "?reach ?w4 ?g ?ls" by simp
  then have hidden: "?reach ?w5 ?g (?ls(1 \<mapsto> Leave Background ''x'' ?none))"
    by (rule sim_reach_act, simp, simp add: sim_actions(6))
  let ?s = "\<lparr>shared = ?w5, group = ?g, callers = ?ls(1 \<mapsto> Leave Background ''x'' ?none, 3 \<mapsto> Start (OpGet Background ''x''))\<rparr>"
  have "sys_step (sim_env False) (demo_repo False) table_group ?s
      \<lparr>shared = counted (CacheHits ?n) ?w5, group = ?g,
       callers = (callers ?s)(3 \<mapsto> Done (OpGet Background ''x'') (ResGet ?none))\<rparr>"
    using sim_step_act [of "callers ?s" 3 "Start (OpGet Background ''x'')" ?w5 _ _ table_group ?g] by (simp add: sim_actions(8))
  then show ?thesis
    using hidden unfolding sim_reach_def
    by (elim exE, intro exI conjI)
       (assumption, simp, simp, rule r_into_rtranclp, simp, simp_all add: sim_view_def race_start one_row_valid)
qed

end
