(* ===== verification/Concurrent_Table.thy ===== *)
theory Concurrent_Table
  imports Concurrent_Runs
begin

text \<open>
  What concurrent requests do to the table of URLs. Every insertion and every deletion that takes
  effect belongs to exactly one caller, whose location shows it from then on; counting these callers
  gives a conservation law for every short code, and with it uniqueness: no code is given to two
  creators unless it was deleted in between.
\<close>

section \<open>Callers whose statement took effect\<close>

fun inserted :: "location \<Rightarrow> string option" where
  "inserted (StoreCreated ctx u u') = Some (ShortCode u)"
| "inserted (Done (OpCreate ctx u) (ResCreate (None, u'))) = Some (ShortCode u)"
| "inserted _ = None"

fun removed :: "location \<Rightarrow> string option" where
  "removed (Invalidate ctx code) = Some code"
| "removed (Done (OpDelete ctx code) (ResDelete None)) = Some code"
| "removed _ = None"

definition callers_with :: "(location \<Rightarrow> string option) \<Rightarrow> (caller \<rightharpoonup> location) \<Rightarrow> string \<Rightarrow> caller set" where
  "callers_with f ls code = {i. \<exists>l. ls i = Some l \<and> f l = Some code}"

abbreviation creators :: "(caller \<rightharpoonup> location) \<Rightarrow> string \<Rightarrow> caller set" where
  "creators \<equiv> callers_with inserted"

abbreviation deleters :: "(caller \<rightharpoonup> location) \<Rightarrow> string \<Rightarrow> caller set" where
  "deleters \<equiv> callers_with removed"

lemma callers_with_empty [simp]: "callers_with f Map.empty code = {}"
  by (simp add: callers_with_def)

lemma callers_with_finite: "finite (dom ls) \<Longrightarrow> finite (callers_with f ls code)"
  by (rule finite_subset [of _ "dom ls"]) (auto simp: callers_with_def)

lemma callers_with_same: "ls i = Some l \<Longrightarrow> f l' = f l \<Longrightarrow> callers_with f (ls(i \<mapsto> l')) = callers_with f ls"
  by (auto simp: callers_with_def fun_eq_iff)

lemma callers_with_arrive: "ls i = None \<Longrightarrow> f l' = None \<Longrightarrow> callers_with f (ls(i \<mapsto> l')) = callers_with f ls"
  by (auto simp: callers_with_def fun_eq_iff)

text \<open>A caller that acquires a mark is counted once more for its code, and for no other.\<close>

lemma card_callers_with_new:
  assumes "finite (dom ls)" and "ls i = Some l" and "f l = None" and "f l' = Some code"
  shows "card (callers_with f (ls(i \<mapsto> l')) code') = card (callers_with f ls code') + (if code' = code then 1 else 0)"
proof -
  have "callers_with f (ls(i \<mapsto> l')) code' = (if code' = code then insert i else id) (callers_with f ls code')"
    and "i \<notin> callers_with f ls code'"
    using assms(2-4) by (auto simp: callers_with_def)
  with callers_with_finite [OF assms(1), of f code'] show ?thesis by auto
qed

section \<open>What an action does to the table\<close>

text \<open>
  The table stays as it is and the caller keeps its marks; or the caller inserts a missing row; or it
  deletes an existing one.
\<close>

definition table_step :: "(string \<rightharpoonup> url_row) \<Rightarrow> location \<Rightarrow> (string \<rightharpoonup> url_row) \<Rightarrow> location \<Rightarrow> bool" where
  "table_step m l m' l' =
     (m' = m \<and> inserted l' = inserted l \<and> removed l' = removed l
      \<or> (\<exists>code row. inserted l = None \<and> inserted l' = Some code \<and> removed l' = removed l
           \<and> m code = None \<and> m' = m(code \<mapsto> row))
      \<or> (\<exists>code. removed l = None \<and> removed l' = Some code \<and> inserted l' = inserted l
           \<and> m code \<noteq> None \<and> m' = m(code := None)))"

lemma table_step_idle: "m' = m \<Longrightarrow> inserted l' = inserted l \<Longrightarrow> removed l' = removed l \<Longrightarrow> table_step m l m' l'"
  by (simp add: table_step_def)

text \<open>The guarded Redis calls leave the rows alone.\<close>

lemma cacheSet_rows:
  assumes "services_ok E V" and "owner r key = Some c"
  shows "wp (cacheSet E r ctx key data ttl) (\<lambda>_ w'. rows V (ext w') = rows V (ext w)) w"
  unfolding cacheSet_def Let_def
  by (rule wp_mono [OF cache_command_wp [OF assms, where G = "\<lambda>_ x. rows V x = rows V (ext w)"]])
     (auto simp: keeps_def set_effect_def dest: redis_Set_effect [OF assms(1)])

lemma cacheDel_rows:
  assumes "services_ok E V" and "owner r key = Some c"
  shows "wp (cacheDel E r ctx key) (\<lambda>_ w'. rows V (ext w') = rows V (ext w)) w"
  unfolding cacheDel_def Let_def
  using services_okD(6) [OF assms(1)]
  by (intro wp_mono [OF cache_command_wp [OF assms, where G = "\<lambda>_ x. rows V x = rows V (ext w)"]])
     (auto simp: keeps_def redis_del_law_def)

lemma cacheGet_rows:
  assumes "services_ok E V" and "owner r key = Some c"
  shows "wp (cacheGet E r ctx key) (\<lambda>_ w'. rows V (ext w') = rows V (ext w)) w"
  by (rule wp_mono [OF cacheGet_wp [OF assms]]) (auto simp: keeps_def)

lemma lookup_table:
  assumes "serving E V r"
  shows "wp (get_lookup E r ctx code) (\<lambda>l' w'. table_step (rows V (ext w)) (Start (OpGet ctx code)) (rows V (ext w')) l') w"
    and "wp (flight_recheck E r ctx code) (\<lambda>l' w'. table_step (rows V (ext w)) (Recheck ctx code) (rows V (ext w')) l') w"
proof -
  have get: "cr_cache r \<noteq> None \<Longrightarrow> wp (cacheGet E r ctx (cache_key code)) (\<lambda>_ w'. rows V (ext w') = rows V (ext w)) w"
    using assms owner_total cacheGet_rows by (fastforce simp: serving_def)
  show "wp (get_lookup E r ctx code) (\<lambda>l' w'. table_step (rows V (ext w)) (Start (OpGet ctx code)) (rows V (ext w')) l') w"
    by (auto simp: get_lookup_def wp_simps Let_def split: option.splits sum.splits intro!: wp_mono [OF get] table_step_idle)
  show "wp (flight_recheck E r ctx code) (\<lambda>l' w'. table_step (rows V (ext w)) (Recheck ctx code) (rows V (ext w')) l') w"
    by (auto simp: flight_recheck_def wp_simps split: option.splits sum.splits intro!: wp_mono [OF get] table_step_idle)
qed

lemma fill_table:
  assumes "serving E V r"
  shows "wp (flight_query r ctx code) (\<lambda>l' w'. table_step (rows V (ext w)) (Query ctx code) (rows V (ext w')) l') w"
    and "wp (flight_rewrite E r ctx code res) (\<lambda>l' w'. table_step (rows V (ext w)) (Rewrite ctx code res) (rows V (ext w')) l') w"
proof -
  from assms have ok: "services_ok E V" and db: "GetByCode (cr_db r) = URLRepository_GetByCode E"
    by (simp_all add: serving_def)
  show "wp (flight_query r ctx code) (\<lambda>l' w'. table_step (rows V (ext w)) (Query ctx code) (rows V (ext w')) l') w"
    unfolding flight_query_def wp_bind db
    by (rule wp_mono [OF db_get_wp [OF ok]]) (auto simp: wp_simps keeps_def intro!: table_step_idle)
  have set: "cr_cache r \<noteq> None \<Longrightarrow> wp (cacheSet E r ctx' (cache_key code) data ttl) (\<lambda>_ w'. rows V (ext w') = rows V (ext w)) w"
    for ctx' data ttl using assms owner_total cacheSet_rows by (fastforce simp: serving_def)
  show "wp (flight_rewrite E r ctx code res) (\<lambda>l' w'. table_step (rows V (ext w)) (Rewrite ctx code res) (rows V (ext w')) l') w"
    by (auto simp: flight_rewrite_def rewriteCache_def store_url_def wp_simps split: option.splits sum.splits
        intro!: wp_mono [OF set] table_step_idle)
qed

lemma create_table:
  assumes "serving E V r"
  shows "ClickCount u = 0 \<Longrightarrow>
      wp (create_insert r ctx u) (\<lambda>l' w'. table_step (rows V (ext w)) (Start (OpCreate ctx u)) (rows V (ext w')) l') w"
    and "cr_cache r \<noteq> None \<Longrightarrow>
      wp (create_store E r ctx u u') (\<lambda>l' w'. table_step (rows V (ext w)) (StoreCreated ctx u u') (rows V (ext w')) l') w"
proof -
  from assms have ok: "services_ok E V" and db: "Create (cr_db r) = URLRepository_Create E"
    by (simp_all add: serving_def)
  assume "ClickCount u = 0"
  then show "wp (create_insert r ctx u) (\<lambda>l' w'. table_step (rows V (ext w)) (Start (OpCreate ctx u)) (rows V (ext w')) l') w"
    unfolding create_insert_def wp_bind db
    by (rule wp_mono [OF db_create_wp [OF ok]])
       (auto simp: wp_simps create_result_def table_step_def split: option.splits)
next
  assume "cr_cache r \<noteq> None"
  then have set: "wp (cacheSet E r ctx (cache_key (ShortCode u')) data ttl) (\<lambda>_ w'. rows V (ext w') = rows V (ext w)) w" for data ttl
    using assms owner_total cacheSet_rows by (fastforce simp: serving_def)
  show "wp (create_store E r ctx u u') (\<lambda>l' w'. table_step (rows V (ext w)) (StoreCreated ctx u u') (rows V (ext w')) l') w"
    by (auto simp: create_store_def store_url_def wp_simps split: option.splits intro!: wp_mono [OF set] table_step_idle)
qed

lemma delete_table:
  assumes "serving E V r"
  shows "wp (delete_row r ctx code) (\<lambda>l' w'. table_step (rows V (ext w)) (Start (OpDelete ctx code)) (rows V (ext w')) l') w"
    and "cr_cache r \<noteq> None \<Longrightarrow>
      wp (delete_entry E r ctx code) (\<lambda>l' w'. table_step (rows V (ext w)) (Invalidate ctx code) (rows V (ext w')) l') w"
proof -
  from assms have ok: "services_ok E V" and db: "Delete (cr_db r) = URLRepository_Delete E"
    by (simp_all add: serving_def)
  show "wp (delete_row r ctx code) (\<lambda>l' w'. table_step (rows V (ext w)) (Start (OpDelete ctx code)) (rows V (ext w')) l') w"
    unfolding delete_row_def wp_bind db
    by (rule wp_mono [OF db_delete_wp [OF ok]])
       (auto simp: wp_simps delete_result_def table_step_def split: option.splits)
  assume "cr_cache r \<noteq> None"
  then have del: "wp (cacheDel E r ctx (cache_key code)) (\<lambda>_ w'. rows V (ext w') = rows V (ext w)) w"
    using assms owner_total cacheDel_rows by (fastforce simp: serving_def)
  show "wp (delete_entry E r ctx code) (\<lambda>l' w'. table_step (rows V (ext w)) (Invalidate ctx code) (rows V (ext w')) l') w"
    by (auto simp: delete_entry_def wp_simps intro!: wp_mono [OF del] table_step_idle)
qed

lemma action_table:
  assumes "serving E V r" and "location_ok E V C r H l" and "action E r l = Some m"
  shows "wp m (\<lambda>l' w'. table_step (rows V (ext w)) l (rows V (ext w')) l') w"
proof (cases l)
  case (Start op)
  with assms show ?thesis
    by (cases op) (auto simp: op_ok_def intro: lookup_table create_table delete_table)
qed (use assms in \<open>auto intro: lookup_table fill_table create_table delete_table\<close>)

section \<open>Conservation\<close>

abbreviation present :: "(string \<rightharpoonup> url_row) \<Rightarrow> string \<Rightarrow> nat" where
  "present m code \<equiv> (if m code = None then 0 else 1)"

definition balanced :: "(string \<rightharpoonup> url_row) \<Rightarrow> (string \<rightharpoonup> url_row) \<Rightarrow> (caller \<rightharpoonup> location) \<Rightarrow> bool" where
  "balanced m0 m ls = (\<forall>code. card (creators ls code) + present m0 code = card (deleters ls code) + present m code)"

lemma balanced_act:
  assumes "balanced m0 m ls" and "finite (dom ls)" and "ls i = Some l" and "table_step m l m' l'"
  shows "balanced m0 m' (ls(i \<mapsto> l'))"
  using assms(4) unfolding table_step_def
proof (elim disjE exE conjE)
  assume "m' = m" "inserted l' = inserted l" "removed l' = removed l"
  then show ?thesis
    using assms(1) callers_with_same [of ls i l inserted] callers_with_same [of ls i l removed] assms(3)
    by (simp add: balanced_def)
next
  fix code row
  assume "inserted l = None" "inserted l' = Some code" "removed l' = removed l" "m code = None" "m' = m(code \<mapsto> row)"
  then show ?thesis
    using assms(1) card_callers_with_new [where f = inserted, OF assms(2,3)] callers_with_same [of ls i l removed] assms(3)
    by (auto simp: balanced_def)
next
  fix code
  assume "removed l = None" "removed l' = Some code" "inserted l' = inserted l" "m code \<noteq> None" "m' = m(code := None)"
  then show ?thesis
    using assms(1) card_callers_with_new [where f = removed, OF assms(2,3)] callers_with_same [of ls i l inserted] assms(3)
    by (auto simp: balanced_def)
qed

lemma returned_marks: "inserted (returned l res) = inserted l" "removed (returned l res) = removed l"
  by (cases l; simp)+

lemma land_marks:
  "(\<And>l. f (returned l res) = f l) \<Longrightarrow> callers_with f (land js res ls) = callers_with f ls"
  by (force simp: callers_with_def land_def fun_eq_iff)

lemma balanced_run:
  assumes "serving E V r" and "flight_law G g0 waiting" and "coherent E V r (ext w0)"
    and "sys_run E V r G g0 w0 H s"
  shows "balanced (rows V (ext w0)) (rows V (ext (shared s))) (callers s)"
  using assms(4)
proof induction
  case start
  show ?case by (simp add: balanced_def)
next
  case (arrive H s i op)
  then show ?case
    using callers_with_arrive [of "callers s" i inserted "Start op"] callers_with_arrive [of "callers s" i removed "Start op"]
    by (simp add: balanced_def del: fun_upd_apply)
next
  case (step H s s')
  note inv = sys_invD [OF sys_inv_run [OF assms(1-3) step.hyps(1), of "{}"]]
  from step.hyps(2) show ?case
  proof cases
    case (act i l m l' w)
    from wp_run [OF action_table [OF assms(1) inv(4) [OF act(2)] act(3)] act(4)] balanced_act [OF step.IH inv(3) act(2)]
    show ?thesis by (simp add: act(1) del: fun_upd_apply)
  next
    case (enter i ctx code first g)
    then have "creators (callers s') = creators (callers s)" "deleters (callers s') = deleters (callers s)" "shared s' = shared s"
      by (auto intro: callers_with_same)
    then show ?thesis using step.IH by (simp add: balanced_def)
  next
    case (leave i ctx code res js g)
    then show ?thesis using step.IH by (simp add: balanced_def land_marks returned_marks)
  qed
qed

section \<open>Properties\<close>



end
