(* ===== verification/Go_Parse.thy ===== *)
theory Go_Parse
  imports Go_Float
begin

text \<open>
  The parsing functions of the Go standard library that the two services read their environment
  with: \<^verbatim>\<open>strings.Split\<close> and \<^verbatim>\<open>TrimSpace\<close>, \<^verbatim>\<open>strconv.Atoi\<close> and
  \<^verbatim>\<open>ParseFloat\<close>, \<^verbatim>\<open>time.ParseDuration\<close>, and \<^verbatim>\<open>fmt.Sscanf\<close>
  with the format \<open>%d\<close>. An error of theirs is \<open>None\<close>: the callers look at nothing else.
\<close>

section \<open>Strings\<close>

text \<open>\<^verbatim>\<open>strings.Split\<close> at a one-byte separator.\<close>

fun Split :: "string \<Rightarrow> char \<Rightarrow> string list" where
  "Split [] c = [[]]"
| "Split (x # xs) c =
     (if x = c then [] # Split xs c
      else (case Split xs c of [] \<Rightarrow> [[x]] | y # ys \<Rightarrow> (x # y) # ys))"

text \<open>The UTF-8 encodings of the white-space runes of \<^verbatim>\<open>unicode.IsSpace\<close>.\<close>

definition space_runes :: "string list" where
  "space_runes =
     [[CHR 0x09], [CHR 0x0A], [CHR 0x0B], [CHR 0x0C], [CHR 0x0D], [CHR 0x20],
      [CHR 0xC2, CHR 0x85], [CHR 0xC2, CHR 0xA0], [CHR 0xE1, CHR 0x9A, CHR 0x80],
      [CHR 0xE2, CHR 0x80, CHR 0x80], [CHR 0xE2, CHR 0x80, CHR 0x81], [CHR 0xE2, CHR 0x80, CHR 0x82],
      [CHR 0xE2, CHR 0x80, CHR 0x83], [CHR 0xE2, CHR 0x80, CHR 0x84], [CHR 0xE2, CHR 0x80, CHR 0x85],
      [CHR 0xE2, CHR 0x80, CHR 0x86], [CHR 0xE2, CHR 0x80, CHR 0x87], [CHR 0xE2, CHR 0x80, CHR 0x88],
      [CHR 0xE2, CHR 0x80, CHR 0x89], [CHR 0xE2, CHR 0x80, CHR 0x8A], [CHR 0xE2, CHR 0x80, CHR 0xA8],
      [CHR 0xE2, CHR 0x80, CHR 0xA9], [CHR 0xE2, CHR 0x80, CHR 0xAF], [CHR 0xE2, CHR 0x81, CHR 0x9F],
      [CHR 0xE3, CHR 0x80, CHR 0x80]]"

text \<open>The first of some byte sequences a string starts with.\<close>

definition leading :: "string list \<Rightarrow> string \<Rightarrow> string option" where
  "leading ps s = find (\<lambda>p. p \<noteq> [] \<and> HasPrefix s p) ps"

lemma leading_Some: "leading ps s = Some p \<Longrightarrow> p \<in> set ps \<and> p \<noteq> [] \<and> s = p @ drop (length p) s"
  by (auto simp: leading_def find_Some_iff HasPrefix_def) (metis append_take_drop_id)

lemma leading_shorter: "leading ps s = Some p \<Longrightarrow> length (drop (length p) s) < length s"
  using leading_Some [of ps s p] by (cases s; cases p) auto

function trim_left :: "string list \<Rightarrow> string \<Rightarrow> string" where
  "trim_left ps s = (case leading ps s of None \<Rightarrow> s | Some p \<Rightarrow> trim_left ps (drop (length p) s))"
  by pat_completeness auto
termination
  by (relation "measure (\<lambda>(ps, s). length s)") (auto dest: leading_shorter)

declare trim_left.simps [simp del]

text \<open>
  A rune at the end of a string is found backwards from its last byte, and a white-space rune has no
  other encoding: trimming on the right is trimming the reversed string.
\<close>

definition TrimSpace :: "string \<Rightarrow> string" where
  "TrimSpace s = rev (trim_left (map rev space_runes) (rev (trim_left space_runes s)))"

section \<open>Integers\<close>

definition dec_digit :: "char \<Rightarrow> bool" where
  "dec_digit c = (48 \<le> (of_char c :: nat) \<and> (of_char c :: nat) \<le> 57)"

definition digit_val :: "char \<Rightarrow> nat" where
  "digit_val c = of_char c - 48"

fun dec_value :: "nat \<Rightarrow> string \<Rightarrow> nat" where
  "dec_value x [] = x"
| "dec_value x (c # s) = dec_value (x * 10 + digit_val c) s"

text \<open>An optional sign: whether it is a minus, and the rest.\<close>

definition split_sign :: "string \<Rightarrow> bool \<times> string" where
  "split_sign s =
     (case s of
        [] \<Rightarrow> (False, [])
      | c # t \<Rightarrow> if c = CHR ''-'' then (True, t) else if c = CHR ''+'' then (False, t) else (False, c # t))"

definition Atoi :: "string \<Rightarrow> int option" where
  "Atoi s =
     (case split_sign s of (neg, ds) \<Rightarrow>
        if ds = [] \<or> \<not> list_all dec_digit ds then None
        else
          let v = int (dec_value 0 ds) in
          if neg then (if v \<le> 2 ^ 63 then Some (- v) else None)
          else (if v < 2 ^ 63 then Some v else None))"

text \<open>
  Scanning with \<open>%d\<close>: white space is skipped, but a newline is an error; then a sign and the
  longest run of digits, and what follows is not looked at.
\<close>

function skip_space :: "string \<Rightarrow> string option" where
  "skip_space s =
     (if HasPrefix s [CHR 0x0A] then None
      else (case leading space_runes s of None \<Rightarrow> Some s | Some p \<Rightarrow> skip_space (drop (length p) s)))"
  by pat_completeness auto
termination
  by (relation "measure length") (auto dest: leading_shorter)

declare skip_space.simps [simp del]

definition Sscanf_d :: "string \<Rightarrow> int option" where
  "Sscanf_d s =
     (case skip_space s of
        None \<Rightarrow> None
      | Some t \<Rightarrow>
          (case t of
             [] \<Rightarrow> None
           | c # u \<Rightarrow>
               if c = CHR ''-'' \<or> c = CHR ''+'' then Atoi (c # takeWhile dec_digit u)
               else Atoi (takeWhile dec_digit t)))"

section \<open>Floating point\<close>

definition scale2 :: "int \<Rightarrow> rat" where
  "scale2 k = (if 0 \<le> k then 2 ^ nat k else 1 / 2 ^ nat (- k))"

text \<open>The binary exponent of a positive rational: \<open>2^e \<le> x < 2^(e+1)\<close>.\<close>

definition ilog2 :: "rat \<Rightarrow> int" where
  "ilog2 x =
     (case quotient_of x of (n, d) \<Rightarrow>
        let k = int (bit_len (nat n)) - int (bit_len (nat d)) in if x < scale2 k then k - 1 else k)"

text \<open>
  Rounding a value that is not negative to the nearest float64, ties to even, subnormal numbers
  included; \<open>None\<close> is overflow.
\<close>

definition round_float64 :: "rat \<Rightarrow> rat option" where
  "round_float64 x =
     (if x = 0 then Some 0
      else
        let q = max (ilog2 x - 52) (- 1074) in
        case quotient_of x of (n, d) \<Rightarrow>
          let m = (if 0 \<le> q then round_even (nat n) (nat d * 2 ^ nat q) else round_even (nat n * 2 ^ nat (- q)) (nat d));
              y = of_nat m * scale2 q
          in if 2 ^ 1024 \<le> y then None else Some y)"

text \<open>
  The syntax of \<^verbatim>\<open>readFloat\<close>. The scan of a mantissa keeps: whether it is hexadecimal,
  whether it saw a point, a digit, an underscore; its value without the point; the digits after it.
\<close>

definition hex_digit :: "char \<Rightarrow> bool" where
  "hex_digit c = (97 \<le> (of_char (ascii_lower c) :: nat) \<and> (of_char (ascii_lower c) :: nat) \<le> 102)"

record mantissa =
  mt_dot :: bool
  mt_digits :: bool
  mt_underscore :: bool
  mt_value :: nat
  mt_frac :: nat

fun scan_mantissa :: "bool \<Rightarrow> mantissa \<Rightarrow> string \<Rightarrow> mantissa \<times> string" where
  "scan_mantissa hex m [] = (m, [])"
| "scan_mantissa hex m (c # s) =
     (if c = CHR ''_'' then scan_mantissa hex (m\<lparr>mt_underscore := True\<rparr>) s
      else if c = CHR ''.'' \<and> \<not> mt_dot m then scan_mantissa hex (m\<lparr>mt_dot := True\<rparr>) s
      else if dec_digit c \<or> hex \<and> hex_digit c then
        scan_mantissa hex
          (m\<lparr>mt_digits := True,
             mt_value := mt_value m * (if hex then 16 else 10)
               + (if dec_digit c then digit_val c else of_char (ascii_lower c) - 87),
             mt_frac := (if mt_dot m then mt_frac m + 1 else mt_frac m)\<rparr>) s
      else (m, c # s))"

fun scan_exponent :: "nat \<Rightarrow> bool \<Rightarrow> string \<Rightarrow> nat \<times> bool \<times> string" where
  "scan_exponent e u [] = (e, u, [])"
| "scan_exponent e u (c # s) =
     (if c = CHR ''_'' then scan_exponent e True s
      else if dec_digit c then scan_exponent (if e < 10000 then e * 10 + digit_val c else e) u s
      else (e, u, c # s))"

text \<open>\<^verbatim>\<open>underscoreOK\<close>: an underscore stands between digits, the base prefix counting as one.\<close>

datatype last_seen = AtStart | AfterDigit | AfterUnderscore | AfterOther

fun underscore_scan :: "bool \<Rightarrow> last_seen \<Rightarrow> string \<Rightarrow> bool" where
  "underscore_scan hex i [] = (i \<noteq> AfterUnderscore)"
| "underscore_scan hex i (c # s) =
     (if dec_digit c \<or> hex \<and> hex_digit c then underscore_scan hex AfterDigit s
      else if c = CHR ''_'' then (if i \<noteq> AfterDigit then False else underscore_scan hex AfterUnderscore s)
      else if i = AfterUnderscore then False
      else underscore_scan hex AfterOther s)"

definition underscoreOK :: "string \<Rightarrow> bool" where
  "underscoreOK s =
     (case snd (split_sign s) of
        CHR ''0'' # x # t \<Rightarrow>
          (if ascii_lower x \<in> {CHR ''b'', CHR ''o'', CHR ''x''}
           then underscore_scan (ascii_lower x = CHR ''x'') AfterDigit t
           else underscore_scan False AtStart (CHR ''0'' # x # t))
      | t \<Rightarrow> underscore_scan False AtStart t)"

text \<open>A power of ten with any exponent.\<close>

definition scale10 :: "int \<Rightarrow> rat" where
  "scale10 k = (if 0 \<le> k then 10 ^ nat k else 1 / 10 ^ nat (- k))"

text \<open>The exponent part after a mantissa: its value and whether it had an underscore.\<close>

definition read_exponent :: "bool \<Rightarrow> string \<Rightarrow> (int \<times> bool) option" where
  "read_exponent hex s =
     (case s of
        [] \<Rightarrow> if hex then None else Some (0, False)
      | c # t \<Rightarrow>
          if ascii_lower c \<noteq> (if hex then CHR ''p'' else CHR ''e'') then None
          else (case split_sign t of (neg, u) \<Rightarrow>
            if u = [] \<or> \<not> dec_digit (hd u) then None
            else (case scan_exponent 0 False u of (e, us, rest) \<Rightarrow>
              if rest \<noteq> [] then None else Some (if neg then - int e else int e, us))))"

definition readFloat :: "string \<Rightarrow> (bool \<times> rat) option" where
  "readFloat s =
     (case split_sign s of (neg, t) \<Rightarrow>
        let hex = (2 < length t \<and> hd t = CHR ''0'' \<and> ascii_lower (t ! 1) = CHR ''x'') in
        case scan_mantissa hex \<lparr>mt_dot = False, mt_digits = False, mt_underscore = False, mt_value = 0, mt_frac = 0\<rparr>
               (if hex then drop 2 t else t) of (m, rest) \<Rightarrow>
          if \<not> mt_digits m then None
          else (case read_exponent hex rest of
            None \<Rightarrow> None
          | Some (e, us) \<Rightarrow>
              if (mt_underscore m \<or> us) \<and> \<not> underscoreOK s then None
              else Some (neg,
                of_nat (mt_value m) * (if hex then scale2 (e - 4 * int (mt_frac m)) else scale10 (e - int (mt_frac m))))))"

definition ParseFloat :: "string \<Rightarrow> float64 option" where
  "ParseFloat s =
     (case split_sign s of (neg, t) \<Rightarrow>
        if map ascii_lower t \<in> {''inf'', ''infinity''} then Some (Infinity neg)
        else if map ascii_lower s = ''nan'' then Some NaN
        else (case readFloat s of
          None \<Rightarrow> None
        | Some (neg, x) \<Rightarrow> map_option (\<lambda>y. Finite (if neg then - y else y)) (round_float64 x)))"

section \<open>Durations\<close>

text \<open>A run of digits; \<open>None\<close> is overflow of 63 bits.\<close>

fun leadingInt :: "nat \<Rightarrow> string \<Rightarrow> (nat \<times> string) option" where
  "leadingInt x [] = Some (x, [])"
| "leadingInt x (c # s) =
     (if \<not> dec_digit c then Some (x, c # s)
      else if 2 ^ 63 div 10 < x then None
      else let x' = x * 10 + digit_val c in if 2 ^ 63 < x' then None else leadingInt x' s)"

text \<open>The digits of a fraction, ignored once they overflow; the scale is a float64 that may become infinite.\<close>

fun leadingFraction :: "nat \<Rightarrow> rat option \<Rightarrow> bool \<Rightarrow> string \<Rightarrow> nat \<times> rat option \<times> string" where
  "leadingFraction x scale overflow [] = (x, scale, [])"
| "leadingFraction x scale overflow (c # s) =
     (if \<not> dec_digit c then (x, scale, c # s)
      else if overflow then leadingFraction x scale True s
      else if (2 ^ 63 - 1) div 10 < x then leadingFraction x scale True s
      else let y = x * 10 + digit_val c in
        if 2 ^ 63 < y then leadingFraction x scale True s
        else leadingFraction y (Option.bind scale (\<lambda>v. round_float64 (v * 10))) False s)"

definition unitMap :: "string \<rightharpoonup> nat" where
  "unitMap = map_of
     [(''ns'', 1), (''us'', 1000), ([CHR 0xC2, CHR 0xB5, CHR ''s''], 1000), ([CHR 0xCE, CHR 0xBC, CHR ''s''], 1000),
      (''ms'', 1000000), (''s'', 1000000000), (''m'', 60000000000), (''h'', 3600000000000)]"

text \<open>\<^verbatim>\<open>uint64(float64(f) * (float64(unit) / scale))\<close>; nothing here overflows a float64.\<close>

definition float64_of :: "rat \<Rightarrow> rat" where
  "float64_of x = (case round_float64 x of Some y \<Rightarrow> y | None \<Rightarrow> 0)"

definition fraction_ns :: "nat \<Rightarrow> nat \<Rightarrow> rat option \<Rightarrow> nat" where
  "fraction_ns f unit_ns scale =
     (case scale of
        None \<Rightarrow> 0
      | Some v \<Rightarrow> nat \<lfloor>float64_of (float64_of (of_nat f) * float64_of (of_nat unit_ns / v))\<rfloor>)"

text \<open>The fraction after a number, if there is one: its digits, their scale, the rest, whether it has digits.\<close>

definition duration_fraction :: "string \<Rightarrow> nat \<times> rat option \<times> string \<times> bool" where
  "duration_fraction s =
     (if s \<noteq> [] \<and> hd s = CHR ''.'' then
        (case leadingFraction 0 (Some 1) False (tl s) of (f, scale, t) \<Rightarrow> (f, scale, t, length t \<noteq> length (tl s)))
      else (0, Some 1, s, False))"

text \<open>The unit after a number, and what number and unit are in nanoseconds.\<close>

definition duration_unit :: "nat \<Rightarrow> nat \<Rightarrow> rat option \<Rightarrow> string \<Rightarrow> (nat \<times> string) option" where
  "duration_unit v f scale s =
     (let u = takeWhile (\<lambda>c. \<not> (c = CHR ''.'' \<or> dec_digit c)) s; rest = drop (length u) s in
      if u = [] then None
      else (case unitMap u of
        None \<Rightarrow> None
      | Some unit_ns \<Rightarrow>
          if 2 ^ 63 div unit_ns < v then None
          else
            let w = v * unit_ns + (if 0 < f then fraction_ns f unit_ns scale else 0)
            in if 0 < f \<and> 2 ^ 63 < w then None else Some (w, rest)))"

definition duration_part :: "string \<Rightarrow> (nat \<times> string) option" where
  "duration_part s =
     (if s = [] \<or> \<not> (hd s = CHR ''.'' \<or> dec_digit (hd s)) then None
      else (case leadingInt 0 s of
        None \<Rightarrow> None
      | Some (v, s1) \<Rightarrow>
          (case duration_fraction s1 of (f, scale, s2, post) \<Rightarrow>
             if length s1 = length s \<and> \<not> post then None else duration_unit v f scale s2)))"

lemma leadingInt_rest: "leadingInt x s = Some (v, t) \<Longrightarrow> length t \<le> length s"
  by (induction x s rule: leadingInt.induct) (auto simp: Let_def split: if_splits)

lemma leadingFraction_rest: "length (snd (snd (leadingFraction x scale ov s))) \<le> length s"
  by (induction x scale ov s rule: leadingFraction.induct) (simp_all add: Let_def le_SucI)

lemma duration_fraction_rest: "duration_fraction s = (f, scale, t, post) \<Longrightarrow> length t \<le> length s"
  using leadingFraction_rest [of 0 "Some 1" False "tl s"]
  by (cases s) (auto simp: duration_fraction_def le_SucI split: if_splits prod.splits)

lemma duration_unit_rest: "duration_unit v f scale s = Some (w, t) \<Longrightarrow> length t < length s"
  by (cases s) (auto simp: duration_unit_def Let_def split: if_splits option.splits)

lemma duration_part_rest: "duration_part s = Some (w, t) \<Longrightarrow> length t < length s"
  unfolding duration_part_def
  by (auto split: if_splits option.splits prod.splits dest!: leadingInt_rest duration_fraction_rest duration_unit_rest)

function duration_loop :: "nat \<Rightarrow> string \<Rightarrow> nat option" where
  "duration_loop d s =
     (if s = [] then Some d
      else (case duration_part s of
        None \<Rightarrow> None
      | Some (v, t) \<Rightarrow> let d' = (d + v) mod 2 ^ 64 in if 2 ^ 63 < d' then None else duration_loop d' t))"
  by pat_completeness auto
termination
  by (relation "measure (\<lambda>(d, s). length s)") (auto dest: duration_part_rest)

declare duration_loop.simps [simp del]

text \<open>A duration in nanoseconds.\<close>

definition ParseDuration :: "string \<Rightarrow> int option" where
  "ParseDuration s =
     (case split_sign s of (neg, t) \<Rightarrow>
        if t = ''0'' then Some 0
        else if t = [] then None
        else (case duration_loop 0 t of
          None \<Rightarrow> None
        | Some d \<Rightarrow> if neg then Some (- int d) else if 2 ^ 63 - 1 < d then None else Some (int d)))"

section \<open>Lemmas\<close>

lemma Split_nonempty: "Split s c \<noteq> []"
  by (induction s) (auto split: list.splits)

lemma Split_no_sep: "t \<in> set (Split s c) \<Longrightarrow> c \<notin> set t"
  by (induction s arbitrary: t) (auto split: list.splits if_splits)

lemma Join_Split: "Join (Split s c) [c] = s"
proof (induction s)
  case (Cons x s)
  obtain y ys where "Split s c = y # ys" using Split_nonempty [of s c] by (cases "Split s c") auto
  with Cons show ?case by (cases ys) auto
qed simp

lemma trim_left_suffix: "\<exists>p. s = p @ trim_left ps s"
proof (induction ps s rule: trim_left.induct)
  case (1 ps s)
  show ?case
  proof (cases "leading ps s")
    case None
    then show ?thesis by (simp add: trim_left.simps [of ps s])
  next
    case (Some p)
    from 1 [OF this] obtain q where "drop (length p) s = q @ trim_left ps (drop (length p) s)" by blast
    moreover have "s = p @ drop (length p) s" using leading_Some [OF Some] by simp
    ultimately have "s = (p @ q) @ trim_left ps (drop (length p) s)" by simp
    moreover have "trim_left ps s = trim_left ps (drop (length p) s)" using Some by (simp add: trim_left.simps [of ps s])
    ultimately show ?thesis by metis
  qed
qed

lemma trim_left_done: "leading ps (trim_left ps s) = None"
proof (induction ps s rule: trim_left.induct)
  case (1 ps s)
  then show ?case by (cases "leading ps s") (simp_all add: trim_left.simps [of ps s])
qed

lemma TrimSpace_infix: "\<exists>p q. s = p @ TrimSpace s @ q"
proof -
  obtain p where p: "s = p @ trim_left space_runes s" using trim_left_suffix by blast
  obtain q where "rev (trim_left space_runes s) = q @ trim_left (map rev space_runes) (rev (trim_left space_runes s))"
    using trim_left_suffix by blast
  then have "trim_left space_runes s = TrimSpace s @ rev q"
    unfolding TrimSpace_def by (metis rev_append rev_rev_ident)
  with p show ?thesis by metis
qed

lemma TrimSpace_trimmed: "p \<in> set space_runes \<Longrightarrow> \<not> HasSuffix (TrimSpace s) p"
proof
  assume p: "p \<in> set space_runes" and suf: "HasSuffix (TrimSpace s) p"
  let ?t = "trim_left (map rev space_runes) (rev (trim_left space_runes s))"
  from suf obtain t where "TrimSpace s = t @ p" by (auto simp: HasSuffix_iff)
  then have "HasPrefix ?t (rev p)" by (simp add: TrimSpace_def HasPrefix_def rev_swap)
  moreover have "rev p \<noteq> []" using p by (auto simp: space_runes_def)
  ultimately have "leading (map rev space_runes) ?t \<noteq> None"
    using p by (auto simp: leading_def find_None_iff)
  then show False by (simp add: trim_left_done)
qed

lemma split_sign_digit: "dec_digit c \<Longrightarrow> split_sign (c # s) = (False, c # s)"
  by (auto simp: split_sign_def dec_digit_def)

lemma dec_digit_char: "d < 10 \<Longrightarrow> dec_digit (digit_char d) \<and> digit_val (digit_char d) = d"
  by (simp add: dec_digit_def digit_val_def of_char_digit)

lemma dec_value_append: "dec_value x (s @ t) = dec_value (dec_value x s) t"
  by (induction s arbitrary: x) simp_all

lemma dec_value_digits: "dec_value 0 (nat_digits n) = n"
proof (induction n rule: nat_digits.induct)
  case (1 n)
  then show ?case
    by (subst nat_digits.simps) (simp add: dec_value_append dec_digit_char)
qed

lemma nat_digits_dec: "list_all dec_digit (nat_digits n)"
  using nat_digits_are_digits dec_digit_char by (fastforce simp: list_all_iff)

lemma Atoi_Itoa: "- (2 ^ 63) \<le> i \<Longrightarrow> i < 2 ^ 63 \<Longrightarrow> Atoi (Itoa i) = Some i"
proof -
  assume i: "- (2 ^ 63) \<le> i" "i < 2 ^ 63"
  have "split_sign (nat_digits n) = (False, nat_digits n)" for n
    using nat_digits_nonempty [of n] nat_digits_dec [of n]
    by (cases "nat_digits n") (simp_all add: split_sign_digit)
  with i show ?thesis
    by (auto simp: Atoi_def Itoa_def split_sign_def [of "CHR ''-'' # _"] nat_digits_nonempty nat_digits_dec dec_value_digits)
qed

lemma duration_loop_bound: "d \<le> 2 ^ 63 \<Longrightarrow> duration_loop d s = Some r \<Longrightarrow> r \<le> 2 ^ 63"
proof (induction d s arbitrary: r rule: duration_loop.induct)
  case (1 d s)
  show ?case
  proof (cases "s = []")
    case True
    with "1.prems" show ?thesis by (simp add: duration_loop.simps [of d "[]"])
  next
    case False
    with "1.prems"(2) obtain v t where part: "duration_part s = Some (v, t)" and le: "\<not> 2 ^ 63 < (d + v) mod 2 ^ 64"
      and rec: "duration_loop ((d + v) mod 2 ^ 64) t = Some r"
      by (subst (asm) duration_loop.simps) (auto simp: Let_def split: if_splits option.splits)
    show ?thesis using "1.IH" [OF False part refl refl le _ rec] le by simp
  qed
qed

lemma ParseDuration_bounds: "ParseDuration s = Some d \<Longrightarrow> - (2 ^ 63) \<le> d \<and> d < 2 ^ 63"
  using duration_loop_bound [of 0]
  by (fastforce simp: ParseDuration_def split: prod.splits if_splits option.splits)

end
