(* ===== verification/Config.thy ===== *)
theory Config
  imports Go_Parse Cached_Repository
begin

text \<open>
  \<^verbatim>\<open>internal/config/config.go\<close>: the gateway's configuration, read from the environment.
  The environment is a map from names to values (\<^verbatim>\<open>os.LookupEnv\<close>), as it is after the
  optional \<^verbatim>\<open>.env\<close> file has been loaded into it. The lemmas show what the list of cache
  nodes can look like and that the circuit breaker settings of an empty environment are the defaults
  of the repository.
\<close>

section \<open>Definitions\<close>

type_synonym environ = "string \<rightharpoonup> string"

record server_config =
  srv_Port :: string

record database_config =
  dbc_Host :: string
  dbc_Port :: string
  dbc_User :: string
  dbc_Password :: string
  dbc_DBName :: string
  dbc_SSLMode :: string

record cache_config =
  cc_Host :: string
  cc_Port :: string
  cc_TTL :: int
  cc_ReadTimeout :: int
  cc_WriteTimeout :: int
  cc_OperationTimeout :: int
  cc_PoolSize :: int
  cc_Nodes :: "string list"
  cc_CBMinRequests :: "32 word"
  cc_CBFailureRate :: float64
  cc_CBConsecutiveFailures :: "32 word"
  cc_CBTimeout :: int

record app_config =
  app_BaseURL :: string
  app_DefaultExpiry :: int
  app_ShortCodeLen :: int
  app_ShortCodeRetries :: int
  app_MaxAliasLen :: int
  app_MinAliasLen :: int

record rate_limiter_config =
  rlcfg_Addr :: string
  rlcfg_Timeout :: int
  rlcfg_Enabled :: bool

record analytics_config =
  an_AMQPURL :: string
  an_Enabled :: bool

record config =
  Server :: server_config
  Database :: database_config
  Cache :: cache_config
  App :: app_config
  RateLimiter :: rate_limiter_config
  Analytics :: analytics_config

text \<open>A variable that is set to the empty string counts as set for \<^verbatim>\<open>getEnv\<close> only.\<close>

definition getEnv :: "environ \<Rightarrow> string \<Rightarrow> string \<Rightarrow> string" where
  "getEnv env key defaultVal = (case env key of Some val \<Rightarrow> val | None \<Rightarrow> defaultVal)"

definition Getenv :: "environ \<Rightarrow> string \<Rightarrow> string" where
  "Getenv env key = (case env key of Some val \<Rightarrow> val | None \<Rightarrow> '''')"

text \<open>The three readers that fall back to the default on an error share their shape.\<close>

definition env_or :: "(string \<Rightarrow> 'a option) \<Rightarrow> environ \<Rightarrow> string \<Rightarrow> 'a \<Rightarrow> 'a" where
  "env_or parse env key defaultVal =
     (let val = Getenv env key in
      if val \<noteq> '''' then (case parse val of Some x \<Rightarrow> x | None \<Rightarrow> defaultVal) else defaultVal)"

definition getEnvInt :: "environ \<Rightarrow> string \<Rightarrow> int \<Rightarrow> int" where
  "getEnvInt = env_or Atoi"

definition getEnvFloat64 :: "environ \<Rightarrow> string \<Rightarrow> float64 \<Rightarrow> float64" where
  "getEnvFloat64 = env_or ParseFloat"

definition getEnvDuration :: "environ \<Rightarrow> string \<Rightarrow> int \<Rightarrow> int" where
  "getEnvDuration = env_or ParseDuration"

definition getCacheNodes :: "environ \<Rightarrow> string \<Rightarrow> string \<Rightarrow> string list" where
  "getCacheNodes env defaultHost defaultPort =
     (let cacheNodesEnv = getEnv env ''CACHE_NODES'' '''' in
      if cacheNodesEnv = '''' then [defaultHost @ '':'' @ defaultPort]
      else filter (\<lambda>node. node \<noteq> '''') (map TrimSpace (Split cacheNodesEnv CHR '','')))"

definition Load :: "environ \<Rightarrow> config" where
  "Load env =
     (let rateLimiterAddr = getEnv env ''RATE_LIMITER_ADDR'' '''';
          amqpURL = getEnv env ''AMQP_URL'' ''''
      in \<lparr>Server = \<lparr>srv_Port = getEnv env ''PORT'' ''8080''\<rparr>,
          Database =
            \<lparr>dbc_Host = getEnv env ''DB_HOST'' ''localhost'', dbc_Port = getEnv env ''DB_PORT'' ''5432'',
             dbc_User = getEnv env ''DB_USER'' ''zhejian'', dbc_Password = getEnv env ''DB_PASSWORD'' ''zhejian_secret'',
             dbc_DBName = getEnv env ''DB_NAME'' ''urlshortener'', dbc_SSLMode = getEnv env ''DB_SSLMODE'' ''disable''\<rparr>,
          Cache =
            \<lparr>cc_Host = getEnv env ''CACHE_HOST'' ''localhost'', cc_Port = getEnv env ''CACHE_PORT'' ''6379'',
             cc_TTL = getEnvDuration env ''CACHE_TTL'' (5 * Minute),
             cc_ReadTimeout = getEnvDuration env ''CACHE_READ_TIMEOUT'' (500 * Millisecond),
             cc_WriteTimeout = getEnvDuration env ''CACHE_WRITE_TIMEOUT'' (500 * Millisecond),
             cc_OperationTimeout = getEnvDuration env ''CACHE_OPERATION_TIMEOUT'' (50 * Millisecond),
             cc_PoolSize = getEnvInt env ''CACHE_POOL_SIZE'' 50,
             cc_Nodes = getCacheNodes env (getEnv env ''CACHE_HOST'' ''localhost'') (getEnv env ''CACHE_PORT'' ''6379''),
             cc_CBMinRequests = word_of_int (getEnvInt env ''CACHE_CB_MIN_REQUESTS'' 50),
             cc_CBFailureRate = getEnvFloat64 env ''CACHE_CB_FAILURE_RATE'' (Finite f0_2),
             cc_CBConsecutiveFailures = word_of_int (getEnvInt env ''CACHE_CB_CONSECUTIVE_FAILURES'' 20),
             cc_CBTimeout = getEnvDuration env ''CACHE_CB_TIMEOUT'' (30 * Second)\<rparr>,
          App =
            \<lparr>app_BaseURL = getEnv env ''BASE_URL'' ''http://localhost:8080'', app_DefaultExpiry = 0,
             app_ShortCodeLen = getEnvInt env ''SHORT_CODE_LENGTH'' 6,
             app_ShortCodeRetries = getEnvInt env ''SHORT_CODE_MAX_RETRIES'' 3,
             app_MaxAliasLen = 20, app_MinAliasLen = 3\<rparr>,
          RateLimiter =
            \<lparr>rlcfg_Addr = rateLimiterAddr, rlcfg_Timeout = getEnvDuration env ''RATE_LIMITER_TIMEOUT'' (100 * Millisecond),
             rlcfg_Enabled = (rateLimiterAddr \<noteq> '''')\<rparr>,
          Analytics = \<lparr>an_AMQPURL = amqpURL, an_Enabled = (amqpURL \<noteq> '''')\<rparr>\<rparr>)"

definition DatabaseConfig_ConnectionString :: "database_config \<Rightarrow> string" where
  "DatabaseConfig_ConnectionString d =
     ''postgres://'' @ dbc_User d @ '':'' @ dbc_Password d @ ''@'' @ dbc_Host d @ '':'' @ dbc_Port d @ ''/''
     @ dbc_DBName d @ ''?sslmode='' @ dbc_SSLMode d"

definition CacheConfig_ConnectionString :: "cache_config \<Rightarrow> string" where
  "CacheConfig_ConnectionString c = ''redis://'' @ cc_Host c @ '':'' @ cc_Port c @ ''/0''"

text \<open>\<^verbatim>\<open>NewRouter\<close> overrides five of the default breaker settings.\<close>

definition router_cb_settings :: "cache_config \<Rightarrow> cb_settings" where
  "router_cb_settings c =
     DefaultCBSettings\<lparr>OperationTimeout := cc_OperationTimeout c, MinRequestsToTrip := cc_CBMinRequests c,
       FailureRateThreshold := cc_CBFailureRate c, ConsecutiveFailures := cc_CBConsecutiveFailures c,
       Timeout := cc_CBTimeout c\<rparr>"

section \<open>The list of cache nodes\<close>

text \<open>A string of white space and separators only names no node.\<close>

definition blank_list :: "string \<Rightarrow> bool" where
  "blank_list s = list_all (\<lambda>t. TrimSpace t = '''') (Split s CHR '','')"

lemma getCacheNodes_entry:
  assumes "node \<in> set (getCacheNodes env host port)" and "getEnv env ''CACHE_NODES'' '''' \<noteq> ''''"
  shows "node \<noteq> '''' \<and> CHR '','' \<notin> set node"
proof -
  from assms obtain t where t: "t \<in> set (Split (getEnv env ''CACHE_NODES'' '''') CHR '','')" "node = TrimSpace t" "node \<noteq> ''''"
    by (auto simp: getCacheNodes_def Let_def)
  obtain p q where "t = p @ TrimSpace t @ q" using TrimSpace_infix by blast
  then have "set (TrimSpace t) \<subseteq> set t" by (metis Un_iff set_append subsetI)
  with t Split_no_sep [OF t(1)] show ?thesis by auto
qed

lemma getCacheNodes_nonempty_names: "'''' \<notin> set (getCacheNodes env host port)"
  by (auto simp: getCacheNodes_def Let_def)

lemma getCacheNodes_empty_iff:
  "getCacheNodes env host port = [] \<longleftrightarrow> getEnv env ''CACHE_NODES'' '''' \<noteq> '''' \<and> blank_list (getEnv env ''CACHE_NODES'' '''')"
  by (auto simp: getCacheNodes_def Let_def blank_list_def filter_empty_conv list_all_iff)

section \<open>Breaker settings\<close>

lemma quotient_of_fifth: "quotient_of (1 / 5) = (1, 5)"
  by code_simp

lemmas float_syntax = split_sign_def ascii_lower_def dec_digit_def hex_digit_def digit_val_def

lemma readFloat_0_2: "readFloat ''0.2'' = Some (False, 1 / 5)"
  by (simp add: readFloat_def read_exponent_def scale10_def float_syntax)

lemma round_fifth: "round_float64 (1 / 5) = Some f0_2"
  by (simp add: round_float64_def ilog2_def quotient_of_fifth scale2_def bit_len.simps round_even_def f0_2_def)

lemma ParseFloat_0_2: "ParseFloat ''0.2'' = Some (Finite f0_2)"
  by (simp add: ParseFloat_def readFloat_0_2 round_fifth float_syntax)

lemma ParseDuration_30s: "ParseDuration ''30s'' = Some (30 * Second)"
  by (simp add: ParseDuration_def duration_loop.simps duration_part_def duration_fraction_def duration_unit_def
    unitMap_def float_syntax Second_def)

text \<open>The variables that tune the breaker, and the values the deployment files give them.\<close>

definition breaker_deployment :: environ where
  "breaker_deployment = map_of
     [(''CACHE_CB_MIN_REQUESTS'', ''50''), (''CACHE_CB_FAILURE_RATE'', ''0.2''),
      (''CACHE_CB_CONSECUTIVE_FAILURES'', ''20''), (''CACHE_CB_TIMEOUT'', ''30s'')]"

lemma Atoi_deployment: "Atoi ''50'' = Some 50" "Atoi ''20'' = Some 20"
  by (simp_all add: Atoi_def float_syntax)

section \<open>Properties\<close>

text \<open>
  The breaker the router builds has the default settings of the repository both in an
  environment that leaves the tuning variables unset and with the values the deployment files give
  them: parsing them yields exactly the defaults, the float64 nearest to 0.2 included.
\<close>

theorem router_breaker_defaults:
  assumes "env ''CACHE_OPERATION_TIMEOUT'' = None"
    and "\<And>key val. breaker_deployment key = Some val \<Longrightarrow> env key = None \<or> env key = Some val"
  shows "router_cb_settings (Cache (Load env)) = DefaultCBSettings"
proof -
  have "env ''CACHE_CB_MIN_REQUESTS'' = None \<or> env ''CACHE_CB_MIN_REQUESTS'' = Some ''50''"
    "env ''CACHE_CB_FAILURE_RATE'' = None \<or> env ''CACHE_CB_FAILURE_RATE'' = Some ''0.2''"
    "env ''CACHE_CB_CONSECUTIVE_FAILURES'' = None \<or> env ''CACHE_CB_CONSECUTIVE_FAILURES'' = Some ''20''"
    "env ''CACHE_CB_TIMEOUT'' = None \<or> env ''CACHE_CB_TIMEOUT'' = Some ''30s''"
    by (rule assms(2), simp add: breaker_deployment_def)+
  with assms(1) have "getEnvInt env ''CACHE_CB_MIN_REQUESTS'' 50 = 50"
    "getEnvFloat64 env ''CACHE_CB_FAILURE_RATE'' (Finite f0_2) = Finite f0_2"
    "getEnvInt env ''CACHE_CB_CONSECUTIVE_FAILURES'' 20 = 20"
    "getEnvDuration env ''CACHE_CB_TIMEOUT'' (30 * Second) = 30 * Second"
    "getEnvDuration env ''CACHE_OPERATION_TIMEOUT'' (50 * Millisecond) = 50 * Millisecond"
    by (auto simp: getEnvInt_def getEnvFloat64_def getEnvDuration_def env_or_def Getenv_def
      ParseFloat_0_2 ParseDuration_30s Atoi_deployment)
  then show ?thesis by (simp add: router_cb_settings_def Load_def Let_def DefaultCBSettings_def)
qed

theorem router_breaker_defaults_witness: "router_cb_settings (Cache (Load breaker_deployment)) = DefaultCBSettings"
  by (rule router_breaker_defaults) (simp_all add: breaker_deployment_def)

end
