(* ===== verification/Net_Url.thy ===== *)
theory Net_Url
  imports Prelude
begin

text \<open>
  The part of Go's \<^verbatim>\<open>net/url\<close> that \<^verbatim>\<open>service.Canonicalize\<close> runs:
  \<^verbatim>\<open>url.Parse\<close> and \<^verbatim>\<open>(*URL).String\<close> with the percent-decoding and
  -encoding rules of each URL part, as of the Go release the module requires (1.24.0). A failed
  parse is \<open>None\<close>: the only caller keeps nothing of the error but that it occurred.
\<close>

abbreviation byte :: "char \<Rightarrow> nat" where
  "byte c \<equiv> of_char c"

datatype encoding = EncodePath | EncodeHost | EncodeZone | EncodeUserPassword | EncodeFragment

definition is_lower_alpha :: "char \<Rightarrow> bool" where
  "is_lower_alpha c = (97 \<le> byte c \<and> byte c \<le> 122)"

definition is_upper_alpha :: "char \<Rightarrow> bool" where
  "is_upper_alpha c = (65 \<le> byte c \<and> byte c \<le> 90)"

definition is_digit :: "char \<Rightarrow> bool" where
  "is_digit c = (48 \<le> byte c \<and> byte c \<le> 57)"

definition ishex :: "char \<Rightarrow> bool" where
  "ishex c = (is_digit c \<or> (97 \<le> byte c \<and> byte c \<le> 102) \<or> (65 \<le> byte c \<and> byte c \<le> 70))"

definition unhex :: "char \<Rightarrow> nat" where
  "unhex c = (if is_digit c then byte c - 48
              else if 97 \<le> byte c \<and> byte c \<le> 102 then byte c - 97 + 10
              else if 65 \<le> byte c \<and> byte c \<le> 70 then byte c - 65 + 10 else 0)"

definition upperhex :: "nat \<Rightarrow> char" where
  "upperhex n = ''0123456789ABCDEF'' ! n"

definition shouldEscape :: "char \<Rightarrow> encoding \<Rightarrow> bool" where
  "shouldEscape c mode =
     (if is_lower_alpha c \<or> is_upper_alpha c \<or> is_digit c then False
      else if (mode = EncodeHost \<or> mode = EncodeZone)
              \<and> c \<in> set (''!$&()*+,;=:[]<>'' @ [CHR 0x22, CHR 0x27]) then False
      else if c \<in> set ''-_.~'' then False
      else if c \<in> set ''$&+,/:;=?@'' \<and> mode = EncodePath then c = CHR ''?''
      else if c \<in> set ''$&+,/:;=?@'' \<and> mode = EncodeUserPassword then c \<in> set ''@/?:''
      else if c \<in> set ''$&+,/:;=?@'' \<and> mode = EncodeFragment then False
      else if mode = EncodeFragment \<and> c \<in> set ''!()*'' then False
      else True)"

fun unescape :: "encoding \<Rightarrow> string \<Rightarrow> string option" where
  "unescape mode [] = Some []"
| "unescape mode (c # cs) =
     (if c = CHR ''%'' then
        (case cs of
           a # b # rest \<Rightarrow>
             if \<not> ishex a \<or> \<not> ishex b then None
             else if mode = EncodeHost \<and> unhex a < 8 \<and> [a, b] \<noteq> ''25'' then None
             else if mode = EncodeZone \<and> [a, b] \<noteq> ''25''
                     \<and> char_of (unhex a * 16 + unhex b) \<noteq> CHR '' ''
                     \<and> shouldEscape (char_of (unhex a * 16 + unhex b)) EncodeHost then None
             else map_option (\<lambda>t. char_of (unhex a * 16 + unhex b) # t) (unescape mode rest)
         | _ \<Rightarrow> None)
      else if c = CHR ''+'' then map_option (\<lambda>t. c # t) (unescape mode cs)
      else if (mode = EncodeHost \<or> mode = EncodeZone) \<and> byte c < 128 \<and> shouldEscape c mode then None
      else map_option (\<lambda>t. c # t) (unescape mode cs))"

fun escape :: "encoding \<Rightarrow> string \<Rightarrow> string" where
  "escape mode [] = []"
| "escape mode (c # cs) =
     (if shouldEscape c mode
      then CHR ''%'' # upperhex (byte c div 16) # upperhex (byte c mod 16) # escape mode cs
      else c # escape mode cs)"

record neturl =
  Scheme :: string
  Opaque :: string
  User :: "(string \<times> string option) option"
  Host :: string
  Path :: string
  RawPath :: string
  OmitHost :: bool
  ForceQuery :: bool
  RawQuery :: string
  Fragment :: string
  RawFragment :: string

definition empty_neturl :: neturl where
  "empty_neturl = \<lparr>Scheme = '''', Opaque = '''', User = None, Host = '''', Path = '''',
     RawPath = '''', OmitHost = False, ForceQuery = False, RawQuery = '''', Fragment = '''',
     RawFragment = ''''\<rparr>"

text \<open>\<open>None\<close> is the error of a URL that starts with a colon.\<close>

fun getScheme_from :: "nat \<Rightarrow> string \<Rightarrow> string \<Rightarrow> (string \<times> string) option" where
  "getScheme_from i raw [] = Some ('''', raw)"
| "getScheme_from i raw (c # cs) =
     (if is_lower_alpha c \<or> is_upper_alpha c then getScheme_from (Suc i) raw cs
      else if is_digit c \<or> c = CHR ''+'' \<or> c = CHR ''-'' \<or> c = CHR ''.'' then
        (if i = 0 then Some ('''', raw) else getScheme_from (Suc i) raw cs)
      else if c = CHR '':'' then
        (if i = 0 then None else Some (take i raw, drop (Suc i) raw))
      else Some ('''', raw))"

definition getScheme :: "string \<Rightarrow> (string \<times> string) option" where
  "getScheme raw = getScheme_from 0 raw raw"

definition validOptionalPort :: "string \<Rightarrow> bool" where
  "validOptionalPort port =
     (case port of [] \<Rightarrow> True | c # cs \<Rightarrow> c = CHR '':'' \<and> list_all is_digit cs)"

definition validUserinfo :: "string \<Rightarrow> bool" where
  "validUserinfo s =
     list_all (\<lambda>c. is_lower_alpha c \<or> is_upper_alpha c \<or> is_digit c
                  \<or> c \<in> set (''-._:~!$&()*+,;=%@'' @ [CHR 0x27])) s"

text \<open>First position of a zone marker \<^verbatim>\<open>%25\<close>.\<close>

fun zone_index :: "string \<Rightarrow> nat option" where
  "zone_index [] = None"
| "zone_index (c # cs) =
     (if HasPrefix (c # cs) ''%25'' then Some 0 else map_option Suc (zone_index cs))"

definition parseHost :: "string \<Rightarrow> string option" where
  "parseHost host =
     (if HasPrefix host ''['' then
        (case LastIndex host (CHR '']'') of
           None \<Rightarrow> None
         | Some i \<Rightarrow>
             if \<not> validOptionalPort (drop (Suc i) host) then None
             else (case zone_index (take i host) of
                     Some z \<Rightarrow>
                       (case (unescape EncodeHost (take z host),
                              unescape EncodeZone (drop z (take i host)),
                              unescape EncodeHost (drop i host)) of
                          (Some h1, Some h2, Some h3) \<Rightarrow> Some (h1 @ h2 @ h3)
                        | _ \<Rightarrow> None)
                   | None \<Rightarrow> unescape EncodeHost host))
      else
        (case LastIndex host (CHR '':'') of
           Some i \<Rightarrow> if \<not> validOptionalPort (drop i host) then None else unescape EncodeHost host
         | None \<Rightarrow> unescape EncodeHost host))"

definition parseAuthority :: "string \<Rightarrow> ((string \<times> string option) option \<times> string) option" where
  "parseAuthority authority =
     (case LastIndex authority (CHR ''@'') of
        None \<Rightarrow> map_option (\<lambda>h. (None, h)) (parseHost authority)
      | Some i \<Rightarrow>
          (case parseHost (drop (Suc i) authority) of
             None \<Rightarrow> None
           | Some host \<Rightarrow>
               let userinfo = take i authority in
               if \<not> validUserinfo userinfo then None
               else (case Cut userinfo (CHR '':'') of
                       (u, p, False) \<Rightarrow>
                         map_option (\<lambda>u'. (Some (u', None), host)) (unescape EncodeUserPassword u)
                     | (u, p, True) \<Rightarrow>
                         (case (unescape EncodeUserPassword u, unescape EncodeUserPassword p) of
                            (Some u', Some p') \<Rightarrow> Some (Some (u', Some p'), host)
                          | _ \<Rightarrow> None))))"

definition setPath :: "neturl \<Rightarrow> string \<Rightarrow> neturl option" where
  "setPath u p =
     (case unescape EncodePath p of
        None \<Rightarrow> None
      | Some path \<Rightarrow>
          Some (u\<lparr>Path := path, RawPath := (if p = escape EncodePath path then '''' else p)\<rparr>))"

definition setFragment :: "neturl \<Rightarrow> string \<Rightarrow> neturl option" where
  "setFragment u f =
     (case unescape EncodeFragment f of
        None \<Rightarrow> None
      | Some frag \<Rightarrow>
          Some (u\<lparr>Fragment := frag,
                  RawFragment := (if f = escape EncodeFragment frag then '''' else f)\<rparr>))"

definition containsCTLByte :: "string \<Rightarrow> bool" where
  "containsCTLByte s = list_ex (\<lambda>c. byte c < 32 \<or> byte c = 127) s"

text \<open>The tail of \<^verbatim>\<open>parse\<close>: authority and path of what follows scheme and query.\<close>

definition parse_rest :: "neturl \<Rightarrow> string \<Rightarrow> neturl option" where
  "parse_rest u rest =
     (if \<not> HasPrefix rest ''/'' \<and> Scheme u \<noteq> '''' then Some (u\<lparr>Opaque := rest\<rparr>)
      else if \<not> HasPrefix rest ''/'' \<and> CHR '':'' \<in> set (fst (Cut rest (CHR ''/''))) then None
      else if (Scheme u \<noteq> '''' \<or> \<not> HasPrefix rest ''///'') \<and> HasPrefix rest ''//'' then
        (let authority = takeWhile (\<lambda>c. c \<noteq> CHR ''/'') (drop 2 rest);
             path = dropWhile (\<lambda>c. c \<noteq> CHR ''/'') (drop 2 rest)
         in case parseAuthority authority of
              None \<Rightarrow> None
            | Some (user, host) \<Rightarrow> setPath (u\<lparr>User := user, Host := host\<rparr>) path)
      else if Scheme u \<noteq> '''' \<and> HasPrefix rest ''/'' then setPath (u\<lparr>OmitHost := True\<rparr>) rest
      else setPath u rest)"

definition parse_nofrag :: "string \<Rightarrow> neturl option" where
  "parse_nofrag raw =
     (if containsCTLByte raw then None
      else if raw = ''*'' then Some (empty_neturl\<lparr>Path := ''*''\<rparr>)
      else (case getScheme raw of
              None \<Rightarrow> None
            | Some (scheme, rest) \<Rightarrow>
                let u = empty_neturl\<lparr>Scheme := map ascii_lower scheme\<rparr> in
                if HasSuffix rest ''?'' \<and> count_list rest (CHR ''?'') = 1
                then parse_rest (u\<lparr>ForceQuery := True\<rparr>) (butlast rest)
                else (case Cut rest (CHR ''?'') of
                        (rest', query, _) \<Rightarrow> parse_rest (u\<lparr>RawQuery := query\<rparr>) rest')))"

definition Parse :: "string \<Rightarrow> neturl option" where
  "Parse rawURL =
     (case Cut rawURL (CHR ''#'') of
        (u, frag, _) \<Rightarrow>
          (case parse_nofrag u of
             None \<Rightarrow> None
           | Some url \<Rightarrow> if frag = '''' then Some url else setFragment url frag))"

definition validEncoded :: "string \<Rightarrow> encoding \<Rightarrow> bool" where
  "validEncoded s mode =
     list_all (\<lambda>c. c \<in> set (''!$&()*+,;=:@[]%'' @ [CHR 0x27]) \<or> \<not> shouldEscape c mode) s"

definition EscapedPath :: "neturl \<Rightarrow> string" where
  "EscapedPath u =
     (if RawPath u \<noteq> '''' \<and> validEncoded (RawPath u) EncodePath
         \<and> unescape EncodePath (RawPath u) = Some (Path u) then RawPath u
      else if Path u = ''*'' then ''*''
      else escape EncodePath (Path u))"

definition EscapedFragment :: "neturl \<Rightarrow> string" where
  "EscapedFragment u =
     (if RawFragment u \<noteq> '''' \<and> validEncoded (RawFragment u) EncodeFragment
         \<and> unescape EncodeFragment (RawFragment u) = Some (Fragment u) then RawFragment u
      else escape EncodeFragment (Fragment u))"

definition userinfo_string :: "string \<times> string option \<Rightarrow> string" where
  "userinfo_string ui =
     escape EncodeUserPassword (fst ui)
       @ (case snd ui of None \<Rightarrow> '''' | Some p \<Rightarrow> '':'' @ escape EncodeUserPassword p)"

text \<open>What \<^verbatim>\<open>String\<close> writes between the scheme and the path.\<close>

definition authority_string :: "neturl \<Rightarrow> string" where
  "authority_string u =
     (if Scheme u = '''' \<and> Host u = '''' \<and> User u = None then ''''
      else if OmitHost u \<and> Host u = '''' \<and> User u = None then ''''
      else (if Host u \<noteq> '''' \<or> Path u \<noteq> '''' \<or> User u \<noteq> None then ''//'' else '''')
           @ (case User u of None \<Rightarrow> '''' | Some ui \<Rightarrow> userinfo_string ui @ ''@'')
           @ escape EncodeHost (Host u))"

definition url_String :: "neturl \<Rightarrow> string" where
  "url_String u =
     (let scheme = (if Scheme u = '''' then '''' else Scheme u @ '':'');
          hier =
            (if Opaque u \<noteq> '''' then scheme @ Opaque u
             else
               let buf = scheme @ authority_string u;
                   path = EscapedPath u;
                   sep = (if path \<noteq> '''' \<and> hd path \<noteq> CHR ''/'' \<and> Host u \<noteq> '''' then ''/'' else '''');
                   dot = (if buf @ sep = '''' \<and> CHR '':'' \<in> set (fst (Cut path (CHR ''/'')))
                          then ''./'' else '''')
               in buf @ sep @ dot @ path)
      in hier
         @ (if ForceQuery u \<or> RawQuery u \<noteq> '''' then ''?'' @ RawQuery u else '''')
         @ (if Fragment u \<noteq> '''' then ''#'' @ EscapedFragment u else ''''))"

text \<open>
  Parsing looks at the fragment only to decode it: where the decoding succeeds, every other field
  is that of the URL without its fragment.
\<close>

lemma unescape_append_digits:
  assumes "unescape mode s = Some t" and "mode \<noteq> EncodeHost" and "mode \<noteq> EncodeZone"
    and "CHR ''%'' \<notin> set ds"
  shows "\<exists>t'. unescape mode (s @ ds) = Some (t @ t')"
proof -
  have ds: "\<exists>t'. unescape mode ds = Some t'"
    using assms(2-4) by (induction ds) auto
  then obtain t' where "unescape mode ds = Some t'" ..
  with assms(1-3) have "unescape mode (s @ ds) = Some (t @ t')"
  proof (induction mode s arbitrary: t rule: unescape.induct)
    case (2 mode c cs)
    then show ?case
      by (auto split: if_splits list.splits option.splits)
  qed simp
  then show ?thesis by blast
qed

lemma setFragment_clear:
  "setFragment u f = Some v \<Longrightarrow> v\<lparr>Fragment := '''', RawFragment := ''''\<rparr>
     = u\<lparr>Fragment := '''', RawFragment := ''''\<rparr>"
  by (auto simp: setFragment_def split: option.splits)

lemma Parse_fragment:
  assumes "Parse (u @ ''#'' @ f) = Some v" and "CHR ''#'' \<notin> set u"
  shows "\<exists>v0. parse_nofrag u = Some v0
           \<and> v\<lparr>Fragment := '''', RawFragment := ''''\<rparr> = v0\<lparr>Fragment := '''', RawFragment := ''''\<rparr>"
  using assms
  by (auto simp: Parse_def Cut_append setFragment_clear split: option.splits if_splits)

end
