(* ===== verification/Short_Code.thy ===== *)
theory Short_Code
  imports Sha256 Net_Url Url_Model
begin

text \<open>
  \<^verbatim>\<open>internal/service/shortcode.go\<close>: canonical form of a long URL, its 64-bit hash, the
  base-62 rendering of the hash and the short code cut from it. The lemmas show that the rendering
  is a positional base-62 numeral (so it can be read back, and different hashes render
  differently), how long it is, and on which URLs the generator fails or repeats itself.
\<close>

section \<open>Definitions\<close>

definition base62Chars :: string where
  "base62Chars = ''0123456789ABCDEFGHIJKLMNOPQRSTUVWXYZabcdefghijklmnopqrstuvwxyz''"

record short_code_generator =
  codeLength :: int
  maxRetries :: int

definition NewShortCodeGenerator :: "int \<Rightarrow> int \<Rightarrow> short_code_generator" where
  "NewShortCodeGenerator len retries = \<lparr>codeLength = len, maxRetries = retries\<rparr>"

definition Canonicalize :: "(string \<Rightarrow> string) \<Rightarrow> string \<Rightarrow> string option" where
  "Canonicalize U longURL =
     (case Parse longURL of
        None \<Rightarrow> None
      | Some u \<Rightarrow>
          let u1 = u\<lparr>Host := ToLower U (Host u)\<rparr>;
              u2 = (if Scheme u1 = ''https'' \<and> HasSuffix (Host u1) '':443''
                    then u1\<lparr>Host := TrimSuffix (Host u1) '':443''\<rparr> else u1);
              u3 = (if Scheme u2 = ''http'' \<and> HasSuffix (Host u2) '':80''
                    then u2\<lparr>Host := TrimSuffix (Host u2) '':80''\<rparr> else u2);
              u4 = u3\<lparr>Path := TrimSuffix (Path u3) ''/''\<rparr>;
              u5 = u4\<lparr>Fragment := ''''\<rparr>
          in Some (url_String u5))"

definition HashURL :: "string \<Rightarrow> 64 word" where
  "HashURL s = BigEndian_Uint64 (take 8 (Sum256 s))"

function encode_loop :: "64 word \<Rightarrow> string \<Rightarrow> string" where
  "encode_loop num encoded =
     (if num > 0 then encode_loop (num div 62) ((base62Chars ! unat (num mod 62)) # encoded)
      else encoded)"
  by pat_completeness auto
termination
  by (relation "measure (\<lambda>(num, _). unat num)") (auto simp: unat_div unat_gt_0 word_greater_zero_iff)

declare encode_loop.simps [simp del]

definition EncodeBase62 :: "64 word \<Rightarrow> string" where
  "EncodeBase62 num = (if num = 0 then [base62Chars ! 0] else encode_loop num '''')"

text \<open>The slice expression panics on a negative length.\<close>

definition Generate :: "(string \<Rightarrow> string) \<Rightarrow> short_code_generator \<Rightarrow> string \<Rightarrow> (service_err + string) outcome" where
  "Generate U g longURL =
     (case Canonicalize U longURL of
        None \<Rightarrow> Ret (Inl ErrInvalidURL)
      | Some c \<Rightarrow>
          let s = EncodeBase62 (HashURL c) in
          if int (length s) < codeLength g then Ret (Inl ErrShortCodeGeneration)
          else if codeLength g < 0 then Panic ''slice bounds out of range''
          else Ret (Inr (take (nat (codeLength g)) s)))"

section \<open>The base-62 numeral\<close>

text \<open>Reference reading of a numeral: position in the alphabet, most significant digit first.\<close>

fun index_of :: "'a \<Rightarrow> 'a list \<Rightarrow> nat" where
  "index_of x [] = 0"
| "index_of x (y # ys) = (if x = y then 0 else Suc (index_of x ys))"

definition base62_value :: "string \<Rightarrow> nat" where
  "base62_value s = foldl (\<lambda>n c. 62 * n + index_of c base62Chars) 0 s"

lemma length_base62Chars [simp]: "length base62Chars = 62"
  by (simp add: base62Chars_def)

lemma distinct_base62Chars: "distinct base62Chars"
  by (simp add: base62Chars_def)

lemma index_of_nth: "distinct xs \<Longrightarrow> i < length xs \<Longrightarrow> index_of (xs ! i) xs = i"
  by (induction xs arbitrary: i) (auto simp: nth_Cons split: nat.splits dest: nth_mem)

lemma index_of_digit: "d < 62 \<Longrightarrow> index_of (base62Chars ! d) base62Chars = d"
  using index_of_nth [OF distinct_base62Chars] by simp

lemma base62_value_append:
  "base62_value (s @ t) = foldl (\<lambda>n c. 62 * n + index_of c base62Chars) (base62_value s) t"
  by (simp add: base62_value_def)

text \<open>The loop produces the digits of the number in front of what it is given.\<close>

fun digits62 :: "nat \<Rightarrow> string" where
  "digits62 n = (if n = 0 then '''' else digits62 (n div 62) @ [base62Chars ! (n mod 62)])"

declare digits62.simps [simp del]

lemma encode_loop_digits: "encode_loop num acc = digits62 (unat num) @ acc"
proof (induction num acc rule: encode_loop.induct)
  case (1 num acc)
  show ?case
  proof (cases "num > 0")
    case True
    then have "unat num \<noteq> 0" by (simp add: word_greater_zero_iff unat_eq_0)
    with True "1.IH" [OF True] show ?thesis
      by (simp add: encode_loop.simps [of num] digits62.simps [of "unat num"] unat_div unat_mod)
  next
    case False
    then show ?thesis
      by (simp add: encode_loop.simps [of 0] digits62.simps [of 0] word_greater_zero_iff)
  qed
qed

lemma base62_value_digits: "base62_value (digits62 n) = n"
proof (induction n rule: digits62.induct)
  case (1 n)
  show ?case
  proof (cases "n = 0")
    case True
    then show ?thesis by (simp add: digits62.simps [of 0] base62_value_def)
  next
    case False
    with "1.IH" show ?thesis
      by (subst digits62.simps) (simp add: base62_value_append index_of_digit)
  qed
qed

lemma EncodeBase62_digits: "num \<noteq> 0 \<Longrightarrow> EncodeBase62 num = digits62 (unat num)"
  by (simp add: EncodeBase62_def encode_loop_digits)

lemma EncodeBase62_value: "base62_value (EncodeBase62 num) = unat num"
proof (cases "num = 0")
  case True
  then show ?thesis
    using index_of_digit [of 0] by (simp add: EncodeBase62_def base62_value_def)
next
  case False
  then show ?thesis by (simp add: EncodeBase62_digits base62_value_digits)
qed

lemma digits62_chars: "c \<in> set (digits62 n) \<Longrightarrow> c \<in> set base62Chars"
proof (induction n rule: digits62.induct)
  case (1 n)
  then show ?case
    by (subst (asm) (2) digits62.simps) (auto split: if_splits)
qed

lemma EncodeBase62_chars: "set (EncodeBase62 num) \<subseteq> set base62Chars"
proof (cases "num = 0")
  case True
  then show ?thesis by (simp add: EncodeBase62_def)
next
  case False
  then show ?thesis by (auto simp: EncodeBase62_digits dest: digits62_chars)
qed

lemma length_digits62: "n < 62 ^ k \<Longrightarrow> length (digits62 n) \<le> k"
proof (induction n arbitrary: k rule: digits62.induct)
  case (1 n)
  show ?case
  proof (cases "n = 0")
    case True
    then show ?thesis by (simp add: digits62.simps [of 0])
  next
    case False
    with "1.prems" obtain j where k: "k = Suc j" by (cases k) auto
    with "1.prems" have "n div 62 < 62 ^ j" by (simp add: less_mult_imp_div_less mult.commute)
    with "1.IH" [OF False, of j] False k show ?thesis
      by (simp add: digits62.simps [of n])
  qed
qed

lemma length_digits62_lower: "62 ^ k \<le> n \<Longrightarrow> k < length (digits62 n)"
proof (induction n arbitrary: k rule: digits62.induct)
  case (1 n)
  from "1.prems" have n: "n \<noteq> 0" by (cases "n = 0") auto
  show ?case
  proof (cases k)
    case 0
    with n show ?thesis by (simp add: digits62.simps [of n])
  next
    case (Suc j)
    with "1.prems" have "62 ^ j \<le> n div 62"
      by (simp add: less_eq_div_iff_mult_less_eq mult.commute)
    with "1.IH" [OF n, of j] n Suc show ?thesis
      by (simp add: digits62.simps [of n])
  qed
qed

lemma length_EncodeBase62: "1 \<le> length (EncodeBase62 num) \<and> length (EncodeBase62 num) \<le> 11"
proof (cases "num = 0")
  case True
  then show ?thesis by (simp add: EncodeBase62_def)
next
  case False
  then have "unat num \<noteq> 0" by (simp add: unat_eq_0)
  moreover have "unat num < 2 ^ LENGTH(64)" by (rule unsigned_less)
  then have "unat num < 62 ^ 11" by simp
  ultimately show ?thesis
    using False length_digits62 [of "unat num" 11] length_digits62_lower [of 0 "unat num"]
    by (simp add: EncodeBase62_digits Suc_le_eq)
qed

lemma length_EncodeBase62_less:
  assumes "0 < n"
  shows "length (EncodeBase62 h) < n \<longleftrightarrow> (unat h < 62 ^ (n - 1) \<and> n \<noteq> 1) \<or> 11 < n"
proof (cases "h = 0")
  case True
  with assms show ?thesis by (auto simp: EncodeBase62_def)
next
  case False
  then have e: "EncodeBase62 h = digits62 (unat h)" by (rule EncodeBase62_digits)
  from assms obtain k where n: "n = Suc k" by (cases n) auto
  have "unat h < 62 ^ k \<longleftrightarrow> length (digits62 (unat h)) \<le> k"
    using length_digits62 length_digits62_lower by (metis linorder_not_le)
  moreover have "1 \<le> length (digits62 (unat h))"
    using length_EncodeBase62 [of h] by (simp only: e)
  ultimately show ?thesis
    using length_EncodeBase62 [of h] by (auto simp: e n)
qed

section \<open>Canonical form\<close>

lemma authority_string_RawFragment:
  "authority_string (v\<lparr>RawFragment := r, Host := h, Path := q, Fragment := f\<rparr>)
     = authority_string (v\<lparr>Host := h, Path := q, Fragment := f\<rparr>)"
  by (simp add: authority_string_def)

lemma EscapedPath_RawFragment:
  "EscapedPath (v\<lparr>RawFragment := r, Host := h, Path := q, Fragment := f\<rparr>)
     = EscapedPath (v\<lparr>Host := h, Path := q, Fragment := f\<rparr>)"
  by (simp add: EscapedPath_def)

lemma url_String_fragment_irrelevant:
  "url_String (v\<lparr>RawFragment := r, Host := h, Path := q, Fragment := ''''\<rparr>)
     = url_String (v\<lparr>Host := h, Path := q, Fragment := ''''\<rparr>)"
  by (simp add: url_String_def authority_string_RawFragment EscapedPath_RawFragment Let_def
      cong: if_cong split del: if_split)
text \<open>
  The fragment has no part in the canonical form, only in its existence: a malformed percent
  escape in it makes the parse fail.
\<close>

lemma Canonicalize_fragment:
  assumes "CHR ''#'' \<notin> set u"
  shows "Canonicalize U (u @ CHR ''#'' # f)
           = (if unescape EncodeFragment f = None then None else Canonicalize U u)"
proof (cases "parse_nofrag u")
  case None
  with assms show ?thesis
    by (simp add: Canonicalize_def Parse_def Cut_append Cut_notin)
next
  case (Some v)
  have u: "Parse u = Some v"
    by (simp add: Parse_def Cut_notin [OF assms] Some)
  show ?thesis
  proof (cases "unescape EncodeFragment f")
    case None
    then have "f \<noteq> ''''" by auto
    with None Some assms show ?thesis
      by (simp add: Canonicalize_def Parse_def Cut_append setFragment_def)
  next
    case (Some g)
    have "Parse (u @ CHR ''#'' # f) = (if f = '''' then Some v else setFragment v f)"
      by (simp add: Parse_def Cut_append [OF assms] \<open>parse_nofrag u = Some v\<close>)
    moreover have "v = v\<lparr>Fragment := Fragment v, RawFragment := RawFragment v\<rparr>" by simp
    ultimately obtain r s
      where "Parse (u @ CHR ''#'' # f) = Some (v\<lparr>Fragment := s, RawFragment := r\<rparr>)"
      using Some by (cases "f = ''''") (metis, auto simp: setFragment_def)
    with u Some show ?thesis
      by (simp add: Canonicalize_def Let_def url_String_fragment_irrelevant)
  qed
qed

lemma Canonicalize_salt:
  assumes "CHR ''#'' \<in> set url" and "Canonicalize U url = Some c" and "CHR ''%'' \<notin> set ds"
  shows "Canonicalize U (url @ ds) = Some c"
proof -
  from assms(1) obtain u f where url: "url = u @ CHR ''#'' # f" and u: "CHR ''#'' \<notin> set u"
    by (auto dest: split_list_first)
  from assms(2) have f: "unescape EncodeFragment f \<noteq> None" and c: "Canonicalize U u = Some c"
    by (auto simp: url Canonicalize_fragment [OF u] split: if_splits)
  from f obtain t where "unescape EncodeFragment f = Some t" by auto
  from unescape_append_digits [OF this _ _ assms(3)]
  have "unescape EncodeFragment (f @ ds) \<noteq> None" by auto
  with c show ?thesis
    using Canonicalize_fragment [OF u, of U "f @ ds"] by (simp add: url)
qed

lemma digit_not_percent: "CHR ''%'' \<notin> set (nat_digits n)"
proof
  assume "CHR ''%'' \<in> set (nat_digits n)"
  then obtain d where "d < 10" and "CHR ''%'' = digit_char d"
    by (blast dest: nat_digits_are_digits)
  then have "of_char (CHR ''%'') = (48 + d :: nat)" by (metis of_char_digit)
  then show False by simp
qed

lemma Itoa_not_percent: "CHR ''%'' \<notin> set (Itoa i)"
  by (simp add: Itoa_def digit_not_percent)

section \<open>The generator\<close>

lemma Generate_cases:
  assumes "0 \<le> codeLength g"
  shows "Generate U g url =
    (case Canonicalize U url of
       None \<Rightarrow> Ret (Inl ErrInvalidURL)
     | Some c \<Rightarrow>
         if length (EncodeBase62 (HashURL c)) < nat (codeLength g) then Ret (Inl ErrShortCodeGeneration)
         else Ret (Inr (take (nat (codeLength g)) (EncodeBase62 (HashURL c)))))"
  using assms by (auto simp: Generate_def Let_def split: option.splits)

lemma Generate_code:
  assumes "0 \<le> codeLength g" and "Generate U g url = Ret (Inr code)"
  shows "int (length code) = codeLength g \<and> set code \<subseteq> set base62Chars"
proof -
  from assms obtain c where "code = take (nat (codeLength g)) (EncodeBase62 (HashURL c))"
    and "nat (codeLength g) \<le> length (EncodeBase62 (HashURL c))"
    by (auto simp: Generate_cases split: option.splits if_splits)
  with assms(1) EncodeBase62_chars [of "HashURL c"] show ?thesis
    by (auto dest: in_set_takeD)
qed

section \<open>Properties\<close>

text \<open>
  C21: The base-62 rendering of a 64-bit number is a positional numeral over the alphabet of
  \<^verbatim>\<open>base62Chars\<close>: read back it gives the number, it uses only characters of the
  alphabet, and it has between 1 and 11 characters.
\<close>

theorem EncodeBase62_numeral:
  "base62_value (EncodeBase62 num) = unat num
   \<and> set (EncodeBase62 num) \<subseteq> set base62Chars
   \<and> 1 \<le> length (EncodeBase62 num) \<and> length (EncodeBase62 num) \<le> 11"
  using EncodeBase62_value EncodeBase62_chars length_EncodeBase62 by blast



text \<open>
  The salt that the service appends to the URL on each attempt is lost on a URL with a
  fragment: the attempt number ends up in the fragment, which the canonical form drops, so every
  attempt yields the same result.
\<close>

theorem Generate_salt_in_fragment:
  assumes "CHR ''#'' \<in> set url" and "Canonicalize U url \<noteq> None"
  shows "Generate U g (url @ Itoa a) = Generate U g (url @ Itoa b)"
proof -
  from assms(2) obtain c where c: "Canonicalize U url = Some c" by blast
  have "Canonicalize U (url @ Itoa i) = Some c" for i
    by (rule Canonicalize_salt [OF assms(1) c Itoa_not_percent])
  then show ?thesis by (simp add: Generate_def)
qed

theorem Generate_salt_in_fragment_witness:
  "CHR ''#'' \<in> set ''http://a.b/#c'' \<and> Canonicalize (\<lambda>s. s) ''http://a.b/#c'' \<noteq> None
   \<and> Generate (\<lambda>s. s) (NewShortCodeGenerator 6 3) (''http://a.b/#c'' @ Itoa 0)
       = Generate (\<lambda>s. s) (NewShortCodeGenerator 6 3) (''http://a.b/#c'' @ Itoa 1)"
proof -
  have h: "CHR ''#'' \<in> set ''http://a.b/#c''" by simp
  have c: "Canonicalize (\<lambda>s. s) ''http://a.b/#c'' \<noteq> None" by code_simp
  show ?thesis using h c Generate_salt_in_fragment [OF h c] by blast
qed

end
