(* ===== verification/Url_Service.thy ===== *)
theory Url_Service
  imports Cached_Repository Short_Code
begin

text \<open>
  \<^verbatim>\<open>internal/service/url_service.go\<close>: creation of short URLs (custom alias or generated
  code with retries), look-up with expiry, redirection and deletion. The lemmas are proved once, for
  any repository that meets the contract of theory \<open>Url_Repository\<close>, and hold of the cached
  repository the service is built with. Log lines are left out.
\<close>

section \<open>Definitions\<close>

record 'x url_service =
  svc_repo :: "'x repository"
  baseURL :: string
  shortCodeLen :: int
  shortCodeRetries :: int

definition NewURLService :: "'x env \<Rightarrow> 'x cached_repository \<Rightarrow> string \<Rightarrow> int \<Rightarrow> int \<Rightarrow> 'x url_service" where
  "NewURLService E repo base len retries =
     \<lparr>svc_repo = CachedURLRepository E repo, baseURL = base, shortCodeLen = len, shortCodeRetries = retries\<rparr>"

definition go_lift :: "'a outcome \<Rightarrow> ('w, 'a) go" where
  "go_lift out = (case out of Ret x \<Rightarrow> go_ret x | Panic e \<Rightarrow> go_panic e)"

text \<open>The record both branches insert.\<close>

definition new_url :: "'x env \<Rightarrow> string \<Rightarrow> string \<Rightarrow> gotime option \<Rightarrow> ('x world, url) go" where
  "new_url E code original expiresAt =
     go_bind (call (uuid_New E)) (\<lambda>i. go_bind (call (time_Now E)) (\<lambda>now.
       go_ret \<lparr>ID = i, ShortCode = code, OriginalURL = original, CreatedAt = now, ExpiresAt = expiresAt, ClickCount = 0\<rparr>))"

text \<open>
  The retry loop over the remaining attempts: \<open>Inr (Some code)\<close> after an insertion,
  \<open>Inr None\<close> when the attempts are used up.
\<close>

fun create_attempts ::
  "'x env \<Rightarrow> 'x url_service \<Rightarrow> short_code_generator \<Rightarrow> ctx \<Rightarrow> string \<Rightarrow> gotime option \<Rightarrow> nat list
   \<Rightarrow> ('x world, service_err + string option) go" where
  "create_attempts E s g ctx longURL expiresAt [] = go_ret (Inr None)"
| "create_attempts E s g ctx longURL expiresAt (attempt # rest) =
     go_bind (go_lift (Generate (unicode_lower E) g (longURL @ Itoa (int attempt)))) (\<lambda>gen.
       case gen of
         Inl genErr \<Rightarrow> go_ret (Inl genErr)
       | Inr candidate \<Rightarrow>
           go_bind (new_url E candidate longURL expiresAt) (\<lambda>url.
             go_bind (Create (svc_repo s) ctx url) (\<lambda>(err, url').
               case err of
                 Some e \<Rightarrow>
                   if e = ErrCodeConflict then create_attempts E s g ctx longURL expiresAt rest
                   else go_ret (Inl (RepoErr e))
               | None \<Rightarrow> go_ret (Inr (Some candidate)))))"

definition expiry_string :: "gotime option \<Rightarrow> string" where
  "expiry_string t = (case t of None \<Rightarrow> '''' | Some t \<Rightarrow> Format_RFC3339 t)"

definition create_response :: "'x url_service \<Rightarrow> gotime option \<Rightarrow> string \<Rightarrow> create_url_response" where
  "create_response s expiresAt shortCode =
     \<lparr>crs_ShortCode = shortCode, crs_ShortURL = baseURL s @ ''/'' @ shortCode,
      crs_ExpiresAt = expiry_string expiresAt\<rparr>"

text \<open>The two branches, each up to the short code or the error it returns.\<close>

definition create_alias ::
  "'x env \<Rightarrow> 'x url_service \<Rightarrow> ctx \<Rightarrow> create_url_request \<Rightarrow> gotime option \<Rightarrow> ('x world, service_err + string) go" where
  "create_alias E s ctx req expiresAt =
     go_bind (new_url E (req_CustomAlias req) (req_URL req) expiresAt) (\<lambda>url.
       go_bind (Create (svc_repo s) ctx url) (\<lambda>(err, url').
         case err of
           Some e \<Rightarrow> go_ret (Inl (if e = ErrCodeConflict then ErrCodeExists else RepoErr e))
         | None \<Rightarrow> go_ret (Inr (ShortCode url'))))"

definition create_generated ::
  "'x env \<Rightarrow> 'x url_service \<Rightarrow> ctx \<Rightarrow> create_url_request \<Rightarrow> gotime option \<Rightarrow> ('x world, service_err + string) go" where
  "create_generated E s ctx req expiresAt =
     (let g = NewShortCodeGenerator (shortCodeLen s) (shortCodeRetries s) in
      go_bind (create_attempts E s g ctx (req_URL req) expiresAt [0 ..< nat (shortCodeRetries s)]) (\<lambda>res.
        case res of
          Inl e \<Rightarrow> go_ret (Inl e)
        | Inr None \<Rightarrow> go_ret (Inl ErrShortCodeGeneration)
        | Inr (Some shortCode) \<Rightarrow> go_ret (Inr shortCode)))"

definition CreateShortURL ::
  "'x env \<Rightarrow> 'x url_service \<Rightarrow> ctx \<Rightarrow> create_url_request \<Rightarrow> ('x world, service_err + create_url_response) go" where
  "CreateShortURL E s ctx req =
     go_bind
       (if 0 < req_ExpiresIn req
        then go_bind (call (time_Now E)) (\<lambda>now. go_ret (Some (AddDays now (req_ExpiresIn req))))
        else go_ret None)
       (\<lambda>expiresAt.
          go_bind
            (if req_CustomAlias req \<noteq> '''' then create_alias E s ctx req expiresAt
             else create_generated E s ctx req expiresAt)
            (\<lambda>res. case res of
               Inl e \<Rightarrow> go_ret (Inl e)
             | Inr shortCode \<Rightarrow> go_ret (Inr (create_response s expiresAt shortCode))))"

definition getAndValidateURL :: "'x env \<Rightarrow> 'x url_service \<Rightarrow> ctx \<Rightarrow> string \<Rightarrow> ('x world, service_err + url) go" where
  "getAndValidateURL E s ctx code =
     go_bind (GetByCode (svc_repo s) ctx code) (\<lambda>res.
       case res of
         Inl err \<Rightarrow> go_ret (Inl (if err = ErrNotFound then ErrURLNotFound else RepoErr err))
       | Inr url \<Rightarrow>
           (case ExpiresAt url of
              None \<Rightarrow> go_ret (Inr url)
            | Some t \<Rightarrow> go_bind (call (time_Now E)) (\<lambda>now.
                go_ret (if Before t now then Inl ErrURLExpired else Inr url))))"

definition GetURL :: "'x env \<Rightarrow> 'x url_service \<Rightarrow> ctx \<Rightarrow> string \<Rightarrow> ('x world, service_err + url_response) go" where
  "GetURL E s ctx code =
     go_bind (getAndValidateURL E s ctx code) (\<lambda>res.
       case res of
         Inl err \<Rightarrow> go_ret (Inl err)
       | Inr url \<Rightarrow> go_ret (Inr
           \<lparr>urs_ShortCode = ShortCode url, urs_OriginalURL = OriginalURL url,
            urs_ShortURL = baseURL s @ ''/'' @ ShortCode url,
            urs_CreatedAt = Format_RFC3339 (CreatedAt url),
            urs_ExpiresAt = expiry_string (ExpiresAt url), urs_ClickCount = ClickCount url\<rparr>))"

definition Redirect :: "'x env \<Rightarrow> 'x url_service \<Rightarrow> ctx \<Rightarrow> string \<Rightarrow> ('x world, service_err + string) go" where
  "Redirect E s ctx code =
     go_bind (getAndValidateURL E s ctx code) (\<lambda>res.
       case res of Inl err \<Rightarrow> go_ret (Inl err) | Inr url \<Rightarrow> go_ret (Inr (OriginalURL url)))"

definition DeleteURL :: "'x env \<Rightarrow> 'x url_service \<Rightarrow> ctx \<Rightarrow> string \<Rightarrow> ('x world, service_err option) go" where
  "DeleteURL E s ctx code =
     go_bind (Delete (svc_repo s) ctx code) (\<lambda>err.
       case err of
         Some e \<Rightarrow> go_ret (Some (if e = ErrNotFound then ErrURLNotFound else RepoErr e))
       | None \<Rightarrow> go_ret None)"

section \<open>The service over any repository that meets the contract\<close>

text \<open>One row more, for a code that was free.\<close>

definition added :: "(string \<rightharpoonup> url_row) \<Rightarrow> (string \<rightharpoonup> url_row) \<Rightarrow> string \<Rightarrow> string \<Rightarrow> gotime option \<Rightarrow> bool" where
  "added m m' code original expiresAt =
     (m code = None \<and> (\<exists>row. m' = m(code \<mapsto> row) \<and> row_short_code row = code \<and> row_original_url row = original
        \<and> row_expires_at row = map_option pg_micros expiresAt))"

definition requested_expiry :: "'x env \<Rightarrow> create_url_request \<Rightarrow> 'x world \<Rightarrow> gotime option" where
  "requested_expiry E req w =
     (if 0 < req_ExpiresIn req then Some (AddDays (fst (time_Now E (ext w))) (req_ExpiresIn req)) else None)"

text \<open>What a creation may answer: exactly these successes, and exactly these errors.\<close>

definition code_outcome ::
  "'x url_service \<Rightarrow> create_url_request \<Rightarrow> gotime option \<Rightarrow> (string \<rightharpoonup> url_row) \<Rightarrow> (string \<rightharpoonup> url_row)
   \<Rightarrow> service_err + string \<Rightarrow> bool" where
  "code_outcome s req expiresAt m m' res =
     (case res of
        Inr code \<Rightarrow> added m m' code (req_URL req) expiresAt
          \<and> (if req_CustomAlias req = '''' then int (length code) = shortCodeLen s else code = req_CustomAlias req)
      | Inl e \<Rightarrow> m' = m \<and>
          (if req_CustomAlias req = ''''
           then e = ErrInvalidURL \<or> e = ErrShortCodeGeneration \<or> (\<exists>p. e = RepoErr (DbError p))
           else e = ErrCodeExists \<or> (\<exists>p. e = RepoErr (DbError p))))"

definition create_outcome ::
  "'x url_service \<Rightarrow> create_url_request \<Rightarrow> gotime option \<Rightarrow> (string \<rightharpoonup> url_row) \<Rightarrow> (string \<rightharpoonup> url_row)
   \<Rightarrow> service_err + create_url_response \<Rightarrow> bool" where
  "create_outcome s req expiresAt m m' res =
     (case res of
        Inr resp \<Rightarrow> resp = create_response s expiresAt (crs_ShortCode resp)
          \<and> code_outcome s req expiresAt m m' (Inr (crs_ShortCode resp))
      | Inl e \<Rightarrow> code_outcome s req expiresAt m m' (Inl e))"

definition attempts_outcome ::
  "short_code_generator \<Rightarrow> string \<Rightarrow> gotime option \<Rightarrow> (string \<rightharpoonup> url_row) \<Rightarrow> (string \<rightharpoonup> url_row)
   \<Rightarrow> service_err + string option \<Rightarrow> bool" where
  "attempts_outcome g original expiresAt m m' res =
     (case res of
        Inr (Some code) \<Rightarrow> added m m' code original expiresAt \<and> int (length code) = codeLength g
      | Inr None \<Rightarrow> m' = m
      | Inl e \<Rightarrow> m' = m \<and> (e = ErrInvalidURL \<or> e = ErrShortCodeGeneration \<or> (\<exists>p. e = RepoErr (DbError p))))"

lemma wp_go_lift [wp_simps]:
  "wp (go_lift out) Q w = (case out of Ret x \<Rightarrow> Q x w | Panic e \<Rightarrow> False)"
  by (simp add: go_lift_def wp_simps split: outcome.splits)

lemma Generate_total:
  assumes "0 \<le> codeLength g"
  shows "\<exists>res. Generate U g url = Ret res \<and>
    (case res of Inl e \<Rightarrow> e = ErrInvalidURL \<or> e = ErrShortCodeGeneration | Inr c \<Rightarrow> int (length c) = codeLength g)"
  using assms by (auto simp: Generate_def Let_def split: option.splits)

text \<open>
  What a look-up may answer: the URL stored under the code while it is live, that it has expired,
  that there is none, or a database failure. The clock is read after the row.
\<close>

definition live_at :: "'x env \<Rightarrow> url \<Rightarrow> 'x world \<Rightarrow> bool" where
  "live_at E u w' =
     (case ExpiresAt u of None \<Rightarrow> True | Some e \<Rightarrow> (\<exists>x now. time_Now E x = (now, ext w') \<and> now \<le> e))"

definition lookup_outcome :: "'x env \<Rightarrow> url_row option \<Rightarrow> 'x world \<Rightarrow> service_err + url \<Rightarrow> bool" where
  "lookup_outcome E found w' res =
     (case res of
        Inr u \<Rightarrow> (\<exists>row. found = Some row \<and> url_matches u row) \<and> live_at E u w'
      | Inl e \<Rightarrow>
          (e = ErrURLNotFound \<and> found = None)
          \<or> (e = ErrURLExpired \<and> (\<exists>row u t x now. found = Some row \<and> url_matches u row \<and> ExpiresAt u = Some t
               \<and> time_Now E x = (now, ext w') \<and> Before t now))
          \<or> (\<exists>p. e = RepoErr (DbError p)))"

locale service_host = url_repository +
  fixes E :: "'a env" and exp_ok :: "gotime \<Rightarrow> bool"
  assumes clock_step: "I w \<Longrightarrow> time_Now E (ext w) = (t, x) \<Longrightarrow> I (w\<lparr>ext := x\<rparr>) \<and> rows V x = rows V (ext w)"
    and uuid_step: "I w \<Longrightarrow> uuid_New E (ext w) = (i, x) \<Longrightarrow> I (w\<lparr>ext := x\<rparr>) \<and> rows V x = rows V (ext w)"
    and ok_iff: "ok u \<longleftrightarrow> pred_option exp_ok (ExpiresAt u)"
begin

text \<open>Inserting a fresh record under a code.\<close>

lemma insert_then:
  assumes "I w" and "pred_option exp_ok expiresAt"
    and fails: "\<And>e u' w'. I w' \<Longrightarrow> rows V (ext w') = rows V (ext w) \<Longrightarrow> e \<noteq> ErrNotFound \<Longrightarrow> wp (f (Some e, u')) Q w'"
    and succeeds: "\<And>u' w'. I w' \<Longrightarrow> added (rows V (ext w)) (rows V (ext w')) code original expiresAt \<Longrightarrow>
        ShortCode u' = code \<Longrightarrow> wp (f (None, u')) Q w'"
  shows "wp (go_bind (new_url E code original expiresAt) (\<lambda>u. go_bind (Create R ctx u) f)) Q w"
proof -
  obtain i x where i: "uuid_New E (ext w) = (i, x)" by force
  obtain t y where t: "time_Now E x = (t, y)" by force
  let ?u = "\<lparr>ID = i, ShortCode = code, OriginalURL = original, CreatedAt = t, ExpiresAt = expiresAt, ClickCount = 0\<rparr>"
  from uuid_step [OF assms(1) i] have x: "I (w\<lparr>ext := x\<rparr>)" "rows V x = rows V (ext w)" by simp_all
  from clock_step [OF x(1)] t x have y: "I (w\<lparr>ext := y\<rparr>)" "rows V y = rows V (ext w)" by simp_all
  have "wp (Create R ctx ?u) (\<lambda>res w'. I w' \<and> create_result ?u (rows V y) (rows V (ext w')) res) (w\<lparr>ext := y\<rparr>)"
    using create_spec [OF y(1), of ?u] assms(2) by (simp add: ok_iff)
  then have "wp (Create R ctx ?u) (\<lambda>res. wp (f res) Q) (w\<lparr>ext := y\<rparr>)"
  proof (rule wp_mono, goal_cases)
    case (1 res w')
    then show ?case
      by (cases res; cases "fst res")
         (auto simp: create_result_def added_def url_matches_def y(2) intro!: fails succeeds)
  qed
  with i t show ?thesis by (simp add: new_url_def wp_simps)
qed

lemma create_attempts_wp:
  assumes "I w" and "pred_option exp_ok expiresAt" and "0 \<le> codeLength g" and "svc_repo s = R"
  shows "wp (create_attempts E s g ctx original expiresAt attempts)
    (\<lambda>res w'. I w' \<and> attempts_outcome g original expiresAt (rows V (ext w)) (rows V (ext w')) res) w"
  using assms
proof (induction attempts arbitrary: w)
  case Nil
  then show ?case by (simp add: wp_simps attempts_outcome_def)
next
  case (Cons n rest)
  obtain res where gen: "Generate (unicode_lower E) g (original @ Itoa (int n)) = Ret res"
    and res: "case res of Inl e \<Rightarrow> e = ErrInvalidURL \<or> e = ErrShortCodeGeneration | Inr c \<Rightarrow> int (length c) = codeLength g"
    using Generate_total [OF Cons.prems(3)] by blast
  show ?case
  proof (cases res)
    case (Inl e)
    with Cons.prems gen res show ?thesis by (auto simp: wp_simps attempts_outcome_def)
  next
    case (Inr code)
    show ?thesis
      unfolding create_attempts.simps wp_bind [of "go_lift _"] wp_go_lift gen outcome.case Inr sum.case Cons.prems(4)
    proof (rule insert_then [OF Cons.prems(1,2)], goal_cases)
      case (1 e u' w')
      show ?case
        using Cons.IH [OF 1(1) Cons.prems(2-4), unfolded 1(2)] 1
        by (cases e) (simp_all add: wp_simps attempts_outcome_def)
    qed (use Inr res in \<open>simp add: wp_simps attempts_outcome_def\<close>)
  qed
qed

lemma create_alias_wp:
  assumes "I w" and "pred_option exp_ok expiresAt" and "svc_repo s = R" and "req_CustomAlias req \<noteq> ''''"
  shows "wp (create_alias E s ctx req expiresAt)
    (\<lambda>res w'. I w' \<and> code_outcome s req expiresAt (rows V (ext w)) (rows V (ext w')) res) w"
  unfolding create_alias_def assms(3)
proof (rule insert_then [OF assms(1,2)], goal_cases)
  case (1 e u' w')
  with assms(4) show ?case by (cases e) (auto simp: wp_simps code_outcome_def)
qed (use assms(4) in \<open>simp add: wp_simps code_outcome_def\<close>)

lemma create_generated_wp:
  assumes "I w" and "pred_option exp_ok expiresAt" and "0 \<le> shortCodeLen s" and "svc_repo s = R"
    and "req_CustomAlias req = ''''"
  shows "wp (create_generated E s ctx req expiresAt)
    (\<lambda>res w'. I w' \<and> code_outcome s req expiresAt (rows V (ext w)) (rows V (ext w')) res) w"
  unfolding create_generated_def Let_def wp_bind
  by (rule wp_mono [OF create_attempts_wp [OF assms(1,2) _ assms(4)]])
     (use assms(3,5) in \<open>auto simp: wp_simps NewShortCodeGenerator_def attempts_outcome_def code_outcome_def
        split: sum.splits option.splits\<close>)

lemma CreateShortURL_wp:
  assumes "I w" and "pred_option exp_ok (requested_expiry E req w)" and "0 \<le> shortCodeLen s" and "svc_repo s = R"
  shows "wp (CreateShortURL E s ctx req)
    (\<lambda>res w'. I w' \<and> create_outcome s req (requested_expiry E req w) (rows V (ext w)) (rows V (ext w')) res) w"
proof -
  obtain t x where t: "time_Now E (ext w) = (t, x)" by force
  define expiresAt where "expiresAt = requested_expiry E req w"
  define w0 where "w0 = (if 0 < req_ExpiresIn req then w\<lparr>ext := x\<rparr> else w)"
  have w0: "I w0" "rows V (ext w0) = rows V (ext w)"
    using clock_step [OF assms(1) t] assms(1) by (simp_all add: w0_def)
  have "wp (if req_CustomAlias req \<noteq> '''' then create_alias E s ctx req expiresAt else create_generated E s ctx req expiresAt)
    (\<lambda>res w'. I w' \<and> code_outcome s req expiresAt (rows V (ext w)) (rows V (ext w')) res) w0"
    using create_alias_wp [OF w0(1) _ assms(4)] create_generated_wp [OF w0(1) _ assms(3,4)] assms(2)
    unfolding w0(2) expiresAt_def [symmetric] by simp
  then have "wp (go_bind
      (if req_CustomAlias req \<noteq> '''' then create_alias E s ctx req expiresAt else create_generated E s ctx req expiresAt)
      (\<lambda>res. case res of Inl e \<Rightarrow> go_ret (Inl e) | Inr shortCode \<Rightarrow> go_ret (Inr (create_response s expiresAt shortCode))))
    (\<lambda>res w'. I w' \<and> create_outcome s req expiresAt (rows V (ext w)) (rows V (ext w')) res) w0"
    unfolding wp_bind
    by (rule wp_mono) (auto simp: wp_simps create_outcome_def create_response_def split: sum.splits)
  moreover have "wp (if 0 < req_ExpiresIn req
      then go_bind (call (time_Now E)) (\<lambda>now. go_ret (Some (AddDays now (req_ExpiresIn req)))) else go_ret None) Q w
    = Q expiresAt w0" for Q
    using t by (simp add: wp_simps w0_def expiresAt_def requested_expiry_def)
  ultimately show ?thesis unfolding CreateShortURL_def wp_bind expiresAt_def by simp
qed

lemma getAndValidateURL_wp:
  assumes "I w" and "svc_repo s = R"
  shows "wp (getAndValidateURL E s ctx code)
    (\<lambda>res w'. I w' \<and> rows V (ext w') = rows V (ext w) \<and> lookup_outcome E (rows V (ext w) code) w' res) w"
  unfolding getAndValidateURL_def wp_bind assms(2)
proof (rule wp_mono [OF get_spec [OF assms(1)]], goal_cases)
  case (1 res w1)
  show ?case
  proof (cases res)
    case (Inl e)
    with 1 show ?thesis by (cases e) (simp_all add: wp_simps lookup_outcome_def get_result_def)
  next
    case (Inr u)
    with 1 obtain row where row: "rows V (ext w) code = Some row" "url_matches u row" by (auto simp: get_result_def)
    obtain t x where t: "time_Now E (ext w1) = (t, x)" by force
    with 1 clock_step [of w1 t x] row Inr show ?thesis
      by (auto simp: wp_simps lookup_outcome_def live_at_def not_less split: option.splits)
  qed
qed

lemma DeleteURL_wp:
  assumes "I w" and "svc_repo s = R"
  shows "wp (DeleteURL E s ctx code)
    (\<lambda>res w'. I w' \<and> (case res of
        None \<Rightarrow> rows V (ext w) code \<noteq> None \<and> rows V (ext w') = (rows V (ext w))(code := None)
      | Some e \<Rightarrow> rows V (ext w') = rows V (ext w)
          \<and> (e = ErrURLNotFound \<and> rows V (ext w) code = None \<or> (\<exists>p. e = RepoErr (DbError p))))) w"
  unfolding DeleteURL_def wp_bind assms(2)
proof (rule wp_mono [OF delete_spec [OF assms(1)]], goal_cases)
  case (1 res w1)
  then show ?case
    by (cases res; cases "the res") (auto simp: wp_simps delete_result_def)
qed

end

text \<open>With a reachable database there is an answer to every look-up, and taken codes are rejected.\<close>

locale available_host = service_host + available_repository
begin

lemma getAndValidateURL_avail:
  assumes "I w" and "svc_repo s = R"
  shows "wp (getAndValidateURL E s ctx code)
    (\<lambda>res w'. if rows V (ext w) code = None then res = Inl ErrURLNotFound
       else res = Inl ErrURLExpired \<or> (\<exists>u. res = Inr u)) w"
  unfolding getAndValidateURL_def wp_bind assms(2)
proof (rule wp_mono [OF get_avail [OF assms(1)]], goal_cases)
  case (1 res w1)
  then show ?case by (cases res) (auto simp: wp_simps split: if_splits option.splits prod.splits)
qed

lemma insert_taken:
  assumes "I w" and "pred_option exp_ok expiresAt" and "rows V (ext w) code \<noteq> None"
    and taken: "\<And>u' w'. I w' \<Longrightarrow> rows V (ext w') = rows V (ext w) \<Longrightarrow> wp (f (Some ErrCodeConflict, u')) Q w'"
  shows "wp (go_bind (new_url E code original expiresAt) (\<lambda>u. go_bind (Create R ctx u) f)) Q w"
proof -
  obtain i x where i: "uuid_New E (ext w) = (i, x)" by force
  obtain t y where t: "time_Now E x = (t, y)" by force
  let ?u = "\<lparr>ID = i, ShortCode = code, OriginalURL = original, CreatedAt = t, ExpiresAt = expiresAt, ClickCount = 0\<rparr>"
  from uuid_step [OF assms(1) i] have x: "I (w\<lparr>ext := x\<rparr>)" "rows V x = rows V (ext w)" by simp_all
  from clock_step [OF x(1)] t x have y: "I (w\<lparr>ext := y\<rparr>)" "rows V y = rows V (ext w)" by simp_all
  have "wp (Create R ctx ?u) (\<lambda>res w'. (I w' \<and> create_result ?u (rows V y) (rows V (ext w')) res)
      \<and> fst res = Some ErrCodeConflict) (w\<lparr>ext := y\<rparr>)"
    using create_spec [OF y(1), of ?u] create_conflict [OF y(1), of ?u] assms(2,3)
    by (intro wp_conj [of _ "\<lambda>res w'. I w' \<and> create_result ?u (rows V y) (rows V (ext w')) res"]) (simp_all add: ok_iff y(2))
  then have "wp (Create R ctx ?u) (\<lambda>res. wp (f res) Q) (w\<lparr>ext := y\<rparr>)"
    by (rule wp_mono) (auto simp: create_result_def y(2) intro: taken)
  with i t show ?thesis by (simp add: new_url_def wp_simps)
qed

lemma attempts_all_taken:
  assumes "I w" and "pred_option exp_ok expiresAt" and "svc_repo s = R"
    and "\<And>n. n \<in> set attempts \<Longrightarrow>
      \<exists>c. Generate (unicode_lower E) g (original @ Itoa (int n)) = Ret (Inr c) \<and> rows V (ext w) c \<noteq> None"
  shows "wp (create_attempts E s g ctx original expiresAt attempts)
    (\<lambda>res w'. I w' \<and> res = Inr None \<and> rows V (ext w') = rows V (ext w)) w"
  using assms
proof (induction attempts arbitrary: w)
  case Nil
  then show ?case by (simp add: wp_simps)
next
  case (Cons n rest)
  obtain c where gen: "Generate (unicode_lower E) g (original @ Itoa (int n)) = Ret (Inr c)"
    and c: "rows V (ext w) c \<noteq> None"
    using Cons.prems(4) [of n] by auto
  show ?case
    unfolding create_attempts.simps wp_bind [of "go_lift _"] wp_go_lift gen outcome.case sum.case Cons.prems(3)
  proof (rule insert_taken [OF Cons.prems(1,2) c], goal_cases)
    case (1 u' w')
    show ?case
      using Cons.IH [OF 1(1) Cons.prems(2,3), unfolded 1(2), OF Cons.prems(4)] by (simp add: wp_simps)
  qed
qed

lemma create_then_redirect:
  assumes "I w" and "req_ExpiresIn req \<le> 0" and "0 \<le> shortCodeLen s" and "svc_repo s = R"
  shows "wp (CreateShortURL E s ctx req)
    (\<lambda>res. case res of
       Inl e \<Rightarrow> (\<lambda>w'. True)
     | Inr resp \<Rightarrow> wp (Redirect E s ctx' (crs_ShortCode resp)) (\<lambda>got w'. got = Inr (req_URL req))) w"
proof -
  have none: "requested_expiry E req w = None" using assms(2) by (simp add: requested_expiry_def)
  show ?thesis
  proof (rule wp_mono [OF CreateShortURL_wp [OF assms(1) _ assms(3,4)]], unfold none, goal_cases)
    case (2 res w1)
    show ?case
    proof (cases res)
      case (Inr resp)
      let ?code = "crs_ShortCode resp"
      from 2 Inr obtain row where row: "rows V (ext w1) ?code = Some row"
        "row_original_url row = req_URL req" "row_expires_at row = None"
        by (auto simp: create_outcome_def code_outcome_def added_def)
      have "I w1" using 2 by simp
      from wp_conj [OF getAndValidateURL_wp [OF this assms(4)] getAndValidateURL_avail [OF this assms(4)], of ctx' ?code]
      have "wp (Redirect E s ctx' ?code) (\<lambda>got w'. got = Inr (req_URL req)) w1"
        unfolding Redirect_def wp_bind
        by (rule wp_mono) (use row in \<open>auto simp: wp_simps lookup_outcome_def url_matches_def\<close>)
      with Inr show ?thesis by simp
    qed simp
  qed simp
qed

lemma delete_then_redirect:
  assumes "I w" and "svc_repo s = R"
  shows "wp (DeleteURL E s ctx code)
    (\<lambda>res w1. (res = None \<or> res = Some ErrURLNotFound \<longrightarrow>
       wp (Redirect E s ctx' code) (\<lambda>got w'. got = Inl ErrURLNotFound) w1)) w"
proof (rule wp_mono [OF DeleteURL_wp [OF assms]], intro impI, goal_cases)
  case (1 res w1)
  then have "rows V (ext w1) code = None" by (auto split: option.splits)
  moreover have "I w1" using 1 by simp
  ultimately show ?case
    unfolding Redirect_def wp_bind
    by (intro wp_mono [OF getAndValidateURL_avail [OF _ assms(2)]]) (auto simp: wp_simps)
qed

end

section \<open>The service over the cached repository\<close>

lemma cached_inv_keeps: "cached_inv E V r w \<Longrightarrow> keeps V (ext w) x \<Longrightarrow> cached_inv E V r (w\<lparr>ext := x\<rparr>)"
  by (auto simp: cached_inv_def intro: coherent_keeps)

lemma cached_inv_clock:
  assumes "cached_inv E V r w"
  shows "time_Now E (ext w) = (t, x) \<Longrightarrow> cached_inv E V r (w\<lparr>ext := x\<rparr>) \<and> rows V x = rows V (ext w)"
    and "uuid_New E (ext w) = (i, x) \<Longrightarrow> cached_inv E V r (w\<lparr>ext := x\<rparr>) \<and> rows V x = rows V (ext w)"
  using frame_keeps(4,5) [OF services_okD(7) [OF cached_invD(1) [OF assms]], of "ext w"] cached_inv_keeps [OF assms]
  by (simp_all add: keeps_def)

interpretation cached_service:
  service_host "CachedURLRepository E r" V "cached_inv E V r" storable E json_time_ok for E V r
  by unfold_locales (auto dest: cached_inv_clock simp: storable_def)

interpretation cached_service_up:
  available_host "CachedURLRepository E r" V "\<lambda>w. cached_inv E V r w \<and> pg_up E V" storable E json_time_ok for E V r
  by unfold_locales (auto dest: cached_inv_clock simp: storable_def)

section \<open>Properties\<close>

text \<open>Formatting does not see what the database drops.\<close>

lemma url_matches_expiry: "url_matches u row \<Longrightarrow> expiry_string (row_expires_at row) = expiry_string (ExpiresAt u)"
  by (cases "ExpiresAt u")
     (auto simp: url_matches_def expiry_string_def Format_RFC3339_def pg_micros_def split: option.splits)

lemma service_repo: "svc_repo (NewURLService E r base len retries) = CachedURLRepository E r"
  "shortCodeLen (NewURLService E r base len retries) = len"
  "shortCodeRetries (NewURLService E r base len retries) = retries"
  by (simp_all add: NewURLService_def)

definition demo_service :: "sim url_service" where
  "demo_service = NewURLService (sim_env False) (demo_repo False) ''http://s'' 6 3"

definition demo_request :: create_url_request where
  "demo_request = \<lparr>req_URL = ''http://a/'', req_CustomAlias = ''mine'', req_ExpiresIn = 0\<rparr>"









text \<open>
  C39: For a URL with a fragment the retry salt has no effect: when the one code such a URL
  generates is taken, the creation fails after all retries, however many codes are free.
\<close>

theorem CreateShortURL_fragment_exhausted:
  assumes "cached_inv E V r w" and "pg_up E V" and "req_CustomAlias req = ''''" and "req_ExpiresIn req \<le> 0"
    and "CHR ''#'' \<in> set (req_URL req)" and "Canonicalize (unicode_lower E) (req_URL req) \<noteq> None"
    and "Generate (unicode_lower E) (NewShortCodeGenerator len retries) (req_URL req @ Itoa 0) = Ret (Inr code)"
    and "rows V (ext w) code \<noteq> None"
  shows "wp (CreateShortURL E (NewURLService E r base len retries) ctx req)
    (\<lambda>res w'. res = Inl ErrShortCodeGeneration \<and> rows V (ext w') = rows V (ext w)) w"
proof -
  obtain c where c: "Canonicalize (unicode_lower E) (req_URL req) = Some c" using assms(6) by blast
  have "Canonicalize (unicode_lower E) (req_URL req @ Itoa n) = Some c" for n
    by (rule Canonicalize_salt [OF assms(5) c Itoa_not_percent])
  then have "Generate (unicode_lower E) (NewShortCodeGenerator len retries) (req_URL req @ Itoa n) = Ret (Inr code)" for n
    using assms(7) by (simp add: Generate_def)
  with assms(1,2,8) have "wp (create_attempts E (NewURLService E r base len retries) (NewShortCodeGenerator len retries) ctx
      (req_URL req) None [0 ..< nat retries])
      (\<lambda>res w'. (cached_inv E V r w' \<and> pg_up E V) \<and> res = Inr None \<and> rows V (ext w') = rows V (ext w)) w"
    by (intro cached_service_up.attempts_all_taken) (simp_all add: service_repo)
  then have "wp (create_generated E (NewURLService E r base len retries) ctx req None)
      (\<lambda>res w'. res = Inl ErrShortCodeGeneration \<and> rows V (ext w') = rows V (ext w)) w"
    unfolding create_generated_def Let_def wp_bind service_repo by (rule wp_mono) (auto simp: wp_simps)
  then have "wp (create_generated E (NewURLService E r base len retries) ctx req None)
      (\<lambda>res. wp (case res of Inl e \<Rightarrow> go_ret (Inl e)
         | Inr shortCode \<Rightarrow> go_ret (Inr (create_response (NewURLService E r base len retries) None shortCode)))
       (\<lambda>res w'. res = Inl ErrShortCodeGeneration \<and> rows V (ext w') = rows V (ext w))) w"
    by (rule wp_mono) (auto simp: wp_simps)
  with assms(3,4) show ?thesis by (simp add: CreateShortURL_def wp_simps)
qed

text \<open>The concrete case: one-character codes, three attempts, and the one code of the URL taken.\<close>

definition fragment_request :: create_url_request where
  "fragment_request = \<lparr>req_URL = ''http://a.b/#c'', req_CustomAlias = '''', req_ExpiresIn = 0\<rparr>"

definition fragment_code :: string where
  "fragment_code = take 1 (EncodeBase62 (HashURL (the (Canonicalize (\<lambda>s. s) ''http://a.b/#c''))))"

definition fragment_world :: "sim world" where
  "fragment_world = demo_world\<lparr>ext := sim_start\<lparr>sim_rows :=
     [fragment_code \<mapsto> inserted_row 5 fragment_code ''http://a/'' (Time 0 0) None]\<rparr>\<rparr>"

lemma valid_utf8_ascii: "(\<And>c. c \<in> set s \<Longrightarrow> in_range c 0 127) \<Longrightarrow> valid_utf8 s"
  by (induction s) auto

lemma base62_ascii: "c \<in> set base62Chars \<Longrightarrow> in_range c 0 127"
  by (auto simp: base62Chars_def in_range_def)

lemma fragment_inv: "cached_inv (sim_env False) sim_view (demo_repo False) fragment_world"
  using demo_inv by (simp add: cached_inv_def coherent_def coherent_at_def fragment_world_def sim_start_def sim_view_def)

theorem CreateShortURL_fragment_exhausted_witness:
  "wp (CreateShortURL (sim_env False) (NewURLService (sim_env False) (demo_repo False) ''http://s'' 1 3) Background fragment_request)
    (\<lambda>res w'. res = Inl ErrShortCodeGeneration) fragment_world"
proof -
  have canon: "Canonicalize (\<lambda>s. s) ''http://a.b/#c'' \<noteq> None" by code_simp
  then obtain c where c: "Canonicalize (\<lambda>s. s) ''http://a.b/#c'' = Some c" by blast
  have "Canonicalize (\<lambda>s. s) (''http://a.b/#c'' @ Itoa 0) = Some c"
    by (rule Canonicalize_salt [OF _ c Itoa_not_percent]) simp
  then have gen: "Generate (\<lambda>s. s) (NewShortCodeGenerator 1 3) (''http://a.b/#c'' @ Itoa 0) = Ret (Inr fragment_code)"
    using length_EncodeBase62 [of "HashURL c"]
    by (auto simp: Generate_def NewShortCodeGenerator_def fragment_code_def c Let_def not_less)
  have "valid_utf8 fragment_code"
    unfolding fragment_code_def using EncodeBase62_chars base62_ascii by (blast intro: valid_utf8_ascii dest: in_set_takeD)
  moreover have "valid_utf8 ''http://a/''" by (simp add: in_range_def)
  ultimately have row: "rows sim_view (ext fragment_world) fragment_code \<noteq> None"
    by (simp add: sim_view_def fragment_world_def row_valid_inserted)
  have lower: "unicode_lower (sim_env False) = (\<lambda>s. s)" by (simp add: sim_env_def)
  show ?thesis
    by (rule wp_mono [OF CreateShortURL_fragment_exhausted [OF fragment_inv sim_pg_up _ _ _ _ _ row, of fragment_request]])
       (use canon gen in \<open>simp_all add: fragment_request_def lower\<close>)
qed

text \<open>
  The metadata of a live URL is that of its row, with its link under the base URL and RFC 3339
  times, and always a click count of zero: the count is neither stored nor selected.
\<close>

theorem GetURL_correct:
  assumes "cached_inv E V r w"
  shows "wp (GetURL E (NewURLService E r base len retries) ctx code)
    (\<lambda>res w'. rows V (ext w') = rows V (ext w) \<and> (\<forall>resp. res = Inr resp \<longrightarrow>
       (\<exists>row. rows V (ext w) code = Some row \<and> urs_ShortCode resp = row_short_code row
          \<and> urs_OriginalURL resp = row_original_url row \<and> urs_ShortURL resp = base @ ''/'' @ row_short_code row
          \<and> urs_CreatedAt resp = Format_RFC3339 (row_created_at row)
          \<and> urs_ExpiresAt resp = expiry_string (row_expires_at row) \<and> urs_ClickCount resp = 0))) w"
  unfolding GetURL_def wp_bind
proof (rule wp_mono [OF cached_service.getAndValidateURL_wp [OF assms]])
  fix res w'
  assume *: "cached_inv E V r w' \<and> rows V (ext w') = rows V (ext w) \<and> lookup_outcome E (rows V (ext w) code) w' res"
  show "wp (case res of Inl err \<Rightarrow> go_ret (Inl err) | Inr url \<Rightarrow> go_ret (Inr
           \<lparr>urs_ShortCode = ShortCode url, urs_OriginalURL = OriginalURL url,
            urs_ShortURL = baseURL (NewURLService E r base len retries) @ ''/'' @ ShortCode url,
            urs_CreatedAt = Format_RFC3339 (CreatedAt url),
            urs_ExpiresAt = expiry_string (ExpiresAt url), urs_ClickCount = ClickCount url\<rparr>))
     (\<lambda>res w'. rows V (ext w') = rows V (ext w) \<and> (\<forall>resp. res = Inr resp \<longrightarrow>
       (\<exists>row. rows V (ext w) code = Some row \<and> urs_ShortCode resp = row_short_code row
          \<and> urs_OriginalURL resp = row_original_url row \<and> urs_ShortURL resp = base @ ''/'' @ row_short_code row
          \<and> urs_CreatedAt resp = Format_RFC3339 (row_created_at row)
          \<and> urs_ExpiresAt resp = expiry_string (row_expires_at row) \<and> urs_ClickCount resp = 0))) w'"
  proof (cases res)
    case (Inr u)
    with * obtain row where "rows V (ext w) code = Some row" and m: "url_matches u row"
      by (auto simp: lookup_outcome_def)
    with * Inr url_matches_expiry [OF m] show ?thesis
      by (simp add: wp_simps url_matches_def NewURLService_def)
  qed (use * in \<open>simp add: wp_simps\<close>)
qed (simp add: service_repo)

theorem GetURL_correct_witness:
  "wp (GetURL (sim_env False) (NewURLService (sim_env False) (demo_repo False) ''http://s'' 6 3) Background ''x'')
    (\<lambda>res w'. rows sim_view (ext w') = rows sim_view (ext demo_world)) demo_world"
  by (rule wp_mono [OF GetURL_correct [OF demo_inv, of "''http://s''" 6 3 Background "''x''"]]) simp

end
