(* ===== verification/Api_Handler.thy ===== *)
theory Api_Handler
  imports Url_Service
begin

text \<open>
  \<^verbatim>\<open>internal/api/handler.go\<close>: the HTTP handlers, their route table and the health report.
  A handler maps a request to a response and hands click events to publishing goroutines (field
  \<open>spawned\<close> of the world). The web framework's parts are parameters: the decoder of the request
  body, and its documented matching rule (a literal path segment wins over a parameter). The
  handlers' lemmas rest on the contract of the service interface, which the service meets.
\<close>

section \<open>Definitions\<close>

record 'x url_service_interface =
  api_CreateShortURL :: "ctx \<Rightarrow> create_url_request \<Rightarrow> ('x world, service_err + create_url_response) go"
  api_GetURL :: "ctx \<Rightarrow> string \<Rightarrow> ('x world, service_err + url_response) go"
  api_DeleteURL :: "ctx \<Rightarrow> string \<Rightarrow> ('x world, service_err option) go"
  api_Redirect :: "ctx \<Rightarrow> string \<Rightarrow> ('x world, service_err + string) go"

definition URLService :: "'x env \<Rightarrow> 'x url_service \<Rightarrow> 'x url_service_interface" where
  "URLService E s =
     \<lparr>api_CreateShortURL = CreateShortURL E s, api_GetURL = GetURL E s,
      api_DeleteURL = DeleteURL E s, api_Redirect = Redirect E s\<rparr>"

text \<open>
  Pings answer whether they failed; a breaker state provider and the publisher may be absent (nil).
\<close>

record 'x handler =
  h_urlService :: "'x url_service_interface"
  h_db_Ping :: "ctx \<Rightarrow> ('x world, bool) go"
  h_cache_Ping :: "ctx \<Rightarrow> ('x world, bool) go"
  h_publisher :: "('x world, bool) go option"
  h_cacheCBState :: "('x world, string) go option"
  h_rateLimCBState :: "('x world, string) go option"

definition NewHandler ::
  "'x url_service_interface \<Rightarrow> (ctx \<Rightarrow> ('x world, bool) go) \<Rightarrow> (ctx \<Rightarrow> ('x world, bool) go)
   \<Rightarrow> ('x world, bool) go option \<Rightarrow> 'x handler" where
  "NewHandler urlService db cache publisher =
     \<lparr>h_urlService = urlService, h_db_Ping = db, h_cache_Ping = cache, h_publisher = publisher,
      h_cacheCBState = None, h_rateLimCBState = None\<rparr>"

definition WithCBProviders ::
  "'x handler \<Rightarrow> ('x world, string) go option \<Rightarrow> ('x world, string) go option \<Rightarrow> 'x handler" where
  "WithCBProviders h cache rateLimiter =
     (let h1 = (if cache \<noteq> None then h\<lparr>h_cacheCBState := cache\<rparr> else h)
      in if rateLimiter \<noteq> None then h1\<lparr>h_rateLimCBState := rateLimiter\<rparr> else h1)"

record health_report =
  hr_status :: string
  hr_cache :: string
  hr_database :: string
  hr_cache_cb :: "string option"
  hr_rate_limiter_cb :: "string option"
  hr_amqp_connected :: "bool option"

datatype body =
    NoBody | ErrorBody error_response | CreatedBody create_url_response | MetadataBody url_response
  | HealthBody health_report | LocationHeader string

record response =
  rsp_status :: nat
  rsp_body :: body

definition StatusText :: "nat \<Rightarrow> string" where
  "StatusText status =
     (if status = 400 then ''Bad Request''
      else if status = 404 then ''Not Found''
      else if status = 409 then ''Conflict''
      else if status = 410 then ''Gone''
      else if status = 429 then ''Too Many Requests''
      else if status = 500 then ''Internal Server Error''
      else '''')"

definition errorResponse :: "nat \<Rightarrow> string \<Rightarrow> response" where
  "errorResponse status message =
     \<lparr>rsp_status = status, rsp_body = ErrorBody \<lparr>err_Error = StatusText status, err_Message = message\<rparr>\<rparr>"

text \<open>The parts of a request the handlers read; the body is what the framework's decoder made of it.\<close>

record request =
  rq_ctx :: ctx
  rq_body :: "create_url_request option"
  rq_code :: string
  rq_ClientIP :: string
  rq_Referer :: string

definition createShortURL :: "'x handler \<Rightarrow> request \<Rightarrow> ('x world, response) go" where
  "createShortURL h c =
     (case rq_body c of
        None \<Rightarrow> go_ret (errorResponse 400 ''Invalid request body'')
      | Some req \<Rightarrow>
          go_bind (api_CreateShortURL (h_urlService h) (rq_ctx c) req) (\<lambda>res.
            case res of
              Inl err \<Rightarrow>
                go_ret
                  (if err = ErrInvalidURL then errorResponse 400 ''Invalid URL''
                   else if err = ErrCodeExists then errorResponse 409 ''Custom alias already exists''
                   else if err = ErrInvalidAlias then errorResponse 400 ''Invalid custom alias''
                   else errorResponse 500 ''Internal server error'')
            | Inr resp \<Rightarrow> go_ret \<lparr>rsp_status = 201, rsp_body = CreatedBody resp\<rparr>))"

text \<open>The error mapping \<^verbatim>\<open>getURL\<close> and \<^verbatim>\<open>redirect\<close> spell out alike.\<close>

definition lookup_error :: "service_err \<Rightarrow> response" where
  "lookup_error err =
     (if err = ErrURLNotFound then errorResponse 404 ''URL not found''
      else if err = ErrURLExpired then errorResponse 410 ''URL has expired''
      else errorResponse 500 ''Internal server error'')"

definition getURL :: "'x handler \<Rightarrow> request \<Rightarrow> ('x world, response) go" where
  "getURL h c =
     go_bind (api_GetURL (h_urlService h) (rq_ctx c) (rq_code c)) (\<lambda>res.
       case res of
         Inl err \<Rightarrow> go_ret (lookup_error err)
       | Inr resp \<Rightarrow> go_ret \<lparr>rsp_status = 200, rsp_body = MetadataBody resp\<rparr>)"

definition deleteURL :: "'x handler \<Rightarrow> request \<Rightarrow> ('x world, response) go" where
  "deleteURL h c =
     go_bind (api_DeleteURL (h_urlService h) (rq_ctx c) (rq_code c)) (\<lambda>err.
       case err of
         Some e \<Rightarrow>
           go_ret (if e = ErrURLNotFound then errorResponse 404 ''URL not found''
                   else errorResponse 500 ''Internal server error'')
       | None \<Rightarrow> go_ret \<lparr>rsp_status = 204, rsp_body = NoBody\<rparr>)"

text \<open>The arguments of the goroutine are evaluated before it starts, the clock included.\<close>

definition go_Publish :: "click_event \<Rightarrow> ('x world, unit) go" where
  "go_Publish ev = go_modify (\<lambda>w. w\<lparr>spawned := spawned w @ [ev]\<rparr>)"

definition redirect :: "'x env \<Rightarrow> 'x handler \<Rightarrow> request \<Rightarrow> ('x world, response) go" where
  "redirect E h c =
     go_bind (api_Redirect (h_urlService h) (rq_ctx c) (rq_code c)) (\<lambda>res.
       case res of
         Inl err \<Rightarrow> go_ret (lookup_error err)
       | Inr url \<Rightarrow>
           go_bind (call (time_Now E)) (\<lambda>now.
             go_then
               (go_Publish \<lparr>ev_ShortCode = rq_code c, ev_ClickedAt = now, ev_IP = rq_ClientIP c, ev_Referer = rq_Referer c\<rparr>)
               (go_ret \<lparr>rsp_status = 301, rsp_body = LocationHeader url\<rparr>)))"

definition optional :: "('w, 'a) go option \<Rightarrow> ('w, 'a option) go" where
  "optional m = (case m of None \<Rightarrow> go_ret None | Some m \<Rightarrow> go_bind m (\<lambda>x. go_ret (Some x)))"

definition healthCheck :: "'x handler \<Rightarrow> request \<Rightarrow> ('x world, response) go" where
  "healthCheck h c =
     go_bind (h_cache_Ping h (rq_ctx c)) (\<lambda>cacheErr.
     go_bind (h_db_Ping h (rq_ctx c)) (\<lambda>dbErr.
     go_bind (optional (h_cacheCBState h)) (\<lambda>cacheCB.
     go_bind (optional (h_rateLimCBState h)) (\<lambda>rateLimCB.
     go_bind (optional (h_publisher h)) (\<lambda>connected.
       let breaker_open = (cacheCB = Some ''open'' \<and> \<not> cacheErr)
       in go_ret
         \<lparr>rsp_status = (if cacheErr \<or> dbErr then 503 else 200),
          rsp_body = HealthBody
            \<lparr>hr_status = (if cacheErr \<or> dbErr \<or> breaker_open then ''degraded'' else ''ok''),
             hr_cache = (if cacheErr then ''down'' else if breaker_open then ''degraded'' else ''up''),
             hr_database = (if dbErr then ''down'' else ''up''),
             hr_cache_cb = cacheCB, hr_rate_limiter_cb = rateLimCB, hr_amqp_connected = connected\<rparr>\<rparr>)))))"

subsection \<open>Routes\<close>

datatype endpoint = MetricsEndpoint | HealthCheck | CreateShortURLEndpoint | GetURLEndpoint | DeleteURLEndpoint | RedirectEndpoint

text \<open>A path pattern: literal segments and the parameter \<open>:code\<close>.\<close>

datatype segment = Lit string | CodeParam

definition RegisterRoutes :: "(string \<times> segment list \<times> endpoint) list" where
  "RegisterRoutes =
     [(''GET'', [Lit ''health''], HealthCheck),
      (''POST'', [Lit ''api'', Lit ''v1'', Lit ''shorten''], CreateShortURLEndpoint),
      (''GET'', [Lit ''api'', Lit ''v1'', Lit ''urls'', CodeParam], GetURLEndpoint),
      (''DELETE'', [Lit ''api'', Lit ''v1'', Lit ''urls'', CodeParam], DeleteURLEndpoint),
      (''GET'', [CodeParam], RedirectEndpoint)]"

text \<open>The router serves \<^verbatim>\<open>/metrics\<close> besides.\<close>

definition router_routes :: "(string \<times> segment list \<times> endpoint) list" where
  "router_routes = (''GET'', [Lit ''metrics''], MetricsEndpoint) # RegisterRoutes"

fun match_segments :: "segment list \<Rightarrow> string list \<Rightarrow> string option \<Rightarrow> string option option" where
  "match_segments [] [] code = Some code"
| "match_segments (Lit l # ps) (s # ss) code = (if l = s then match_segments ps ss code else None)"
| "match_segments (CodeParam # ps) (s # ss) code = (if s \<noteq> '''' then match_segments ps ss (Some s) else None)"
| "match_segments _ _ _ = None"

text \<open>All literal routes are tried before those with parameters.\<close>

definition dispatch :: "string \<Rightarrow> string list \<Rightarrow> (endpoint \<times> string option) option" where
  "dispatch method path =
     (let matches = List.map_filter (\<lambda>(m, pat, ep).
            if m = method then map_option (\<lambda>code. (pat, ep, code)) (match_segments pat path None) else None) router_routes;
          literal = filter (\<lambda>(pat, _, _). CodeParam \<notin> set pat) matches
      in case literal @ matches of [] \<Rightarrow> None | (_, ep, code) # _ \<Rightarrow> Some (ep, code))"

section \<open>The service interface's contract and the handlers over it\<close>

definition api_lookup :: "url_row option \<Rightarrow> ('a \<Rightarrow> url_row \<Rightarrow> bool) \<Rightarrow> service_err + 'a \<Rightarrow> bool" where
  "api_lookup found good res =
     (case res of
        Inr x \<Rightarrow> (\<exists>row. found = Some row \<and> good x row)
      | Inl e \<Rightarrow>
          (e = ErrURLNotFound \<and> found = None)
          \<or> (e = ErrURLExpired \<and> (\<exists>row. found = Some row \<and> row_expires_at row \<noteq> None))
          \<or> (\<exists>p. e = RepoErr (DbError p)))"

definition stored_under :: "(string \<rightharpoonup> url_row) \<Rightarrow> (string \<rightharpoonup> url_row) \<Rightarrow> string \<Rightarrow> string \<Rightarrow> bool" where
  "stored_under m m' code original =
     (m code = None \<and> (\<exists>row. m' = m(code \<mapsto> row) \<and> row_original_url row = original))"

locale service_api =
  fixes S :: "'x url_service_interface" and V :: "'x view" and I :: "'x world \<Rightarrow> bool"
    and sp :: "click_event list" and req_ok :: "create_url_request \<Rightarrow> 'x world \<Rightarrow> bool" and E :: "'x env"
  assumes events: "I w \<Longrightarrow> spawned w = sp"
    and clock: "I w \<Longrightarrow> time_Now E (ext w) = (t, x) \<Longrightarrow> rows V x = rows V (ext w)"
    and api_create: "I w \<Longrightarrow> req_ok req w \<Longrightarrow>
      wp (api_CreateShortURL S ctx req) (\<lambda>res w'. I w' \<and> (case res of
          Inr resp \<Rightarrow> stored_under (rows V (ext w)) (rows V (ext w')) (crs_ShortCode resp) (req_URL req)
        | Inl e \<Rightarrow> rows V (ext w') = rows V (ext w) \<and> e \<noteq> ErrInvalidAlias)) w"
    and api_get: "I w \<Longrightarrow>
      wp (api_GetURL S ctx code) (\<lambda>res w'. I w' \<and> rows V (ext w') = rows V (ext w)
        \<and> api_lookup (rows V (ext w) code) (\<lambda>resp row. urs_OriginalURL resp = row_original_url row) res) w"
    and api_redirect: "I w \<Longrightarrow>
      wp (api_Redirect S ctx code) (\<lambda>res w'. I w' \<and> rows V (ext w') = rows V (ext w)
        \<and> api_lookup (rows V (ext w) code) (\<lambda>url row. url = row_original_url row) res) w"
    and api_delete: "I w \<Longrightarrow>
      wp (api_DeleteURL S ctx code) (\<lambda>res w'. I w' \<and> (case res of
          None \<Rightarrow> rows V (ext w) code \<noteq> None \<and> rows V (ext w') = (rows V (ext w))(code := None)
        | Some e \<Rightarrow> rows V (ext w') = rows V (ext w) \<and> (e = ErrURLNotFound \<longrightarrow> rows V (ext w) code = None))) w"
begin

lemma stored_differs: "stored_under m m' code original \<Longrightarrow> m' \<noteq> m"
  by (auto simp: stored_under_def dest!: fun_cong [of _ _ code])

lemma createShortURL_wp:
  assumes "I w" and "\<And>req. rq_body c = Some req \<Longrightarrow> req_ok req w" and "h_urlService h = S"
  shows "wp (createShortURL h c)
    (\<lambda>resp w'. spawned w' = sp \<and> rsp_status resp \<in> {201, 400, 409, 500}
       \<and> (rsp_status resp = 201 \<longleftrightarrow> rows V (ext w') \<noteq> rows V (ext w))
       \<and> (rsp_status resp = 201 \<longrightarrow> (\<exists>req created. rq_body c = Some req \<and> rsp_body resp = CreatedBody created
            \<and> stored_under (rows V (ext w)) (rows V (ext w')) (crs_ShortCode created) (req_URL req)))
       \<and> resp \<noteq> errorResponse 400 ''Invalid custom alias'') w"
proof (cases "rq_body c")
  case None
  then show ?thesis using events [OF assms(1)] by (simp add: createShortURL_def wp_simps errorResponse_def)
next
  case (Some req)
  show ?thesis
    unfolding createShortURL_def Some option.case wp_bind assms(3)
    by (rule wp_mono [OF api_create [OF assms(1) assms(2) [OF Some]]])
       (auto simp: wp_simps errorResponse_def events dest: stored_differs split: sum.splits)
qed

lemma getURL_wp:
  assumes "I w" and "h_urlService h = S"
  shows "wp (getURL h c) (\<lambda>resp w'. spawned w' = sp \<and> rows V (ext w') = rows V (ext w)
     \<and> rsp_status resp \<in> {200, 404, 410, 500}
     \<and> (rsp_status resp = 200 \<longrightarrow> rows V (ext w) (rq_code c) \<noteq> None)
     \<and> (rsp_status resp = 404 \<longrightarrow> rows V (ext w) (rq_code c) = None)) w"
  unfolding getURL_def wp_bind assms(2)
  by (rule wp_mono [OF api_get [OF assms(1)]])
     (auto simp: wp_simps lookup_error_def errorResponse_def events api_lookup_def split: sum.splits)

lemma deleteURL_wp:
  assumes "I w" and "h_urlService h = S"
  shows "wp (deleteURL h c)
    (\<lambda>resp w'. spawned w' = sp \<and>
       (rsp_status resp = 204 \<and> rows V (ext w) (rq_code c) \<noteq> None \<and> rows V (ext w') = (rows V (ext w))(rq_code c := None)
        \<or> rsp_status resp = 404 \<and> rows V (ext w) (rq_code c) = None \<and> rows V (ext w') = rows V (ext w)
        \<or> rsp_status resp = 500 \<and> rows V (ext w') = rows V (ext w))) w"
  unfolding deleteURL_def wp_bind assms(2)
  by (rule wp_mono [OF api_delete [OF assms(1)]])
     (auto simp: wp_simps errorResponse_def events split: option.splits)

lemma redirect_wp:
  assumes "I w" and "h_urlService h = S"
  shows "wp (redirect E h c)
    (\<lambda>resp w'. rows V (ext w') = rows V (ext w) \<and>
       ((\<exists>row now. rsp_status resp = 301 \<and> rows V (ext w) (rq_code c) = Some row
           \<and> rsp_body resp = LocationHeader (row_original_url row)
           \<and> spawned w' = sp @ [\<lparr>ev_ShortCode = rq_code c, ev_ClickedAt = now, ev_IP = rq_ClientIP c, ev_Referer = rq_Referer c\<rparr>])
        \<or> rsp_status resp = 404 \<and> rows V (ext w) (rq_code c) = None \<and> spawned w' = sp
        \<or> rsp_status resp = 410 \<and> (\<exists>row. rows V (ext w) (rq_code c) = Some row \<and> row_expires_at row \<noteq> None) \<and> spawned w' = sp
        \<or> rsp_status resp = 500 \<and> spawned w' = sp)) w"
  unfolding redirect_def wp_bind assms(2)
proof (rule wp_mono [OF api_redirect [OF assms(1)]], goal_cases)
  case (1 res w1)
  then have sp: "spawned w1 = sp" by (simp add: events)
  show ?case
  proof (cases res)
    case (Inl e)
    with 1 sp show ?thesis
      by (auto simp: wp_simps lookup_error_def errorResponse_def api_lookup_def)
  next
    case (Inr url)
    obtain t x where "time_Now E (ext w1) = (t, x)" by force
    with 1 Inr sp clock [of w1 t x] show ?thesis
      by (auto simp: wp_simps go_Publish_def api_lookup_def)
  qed
qed

end

section \<open>The service meets the contract\<close>

text \<open>
  The service's lemmas with the spawned events added to the invariant: no service method starts a
  goroutine.
\<close>

definition api_inv :: "'x env \<Rightarrow> 'x view \<Rightarrow> 'x cached_repository \<Rightarrow> click_event list \<Rightarrow> 'x world \<Rightarrow> bool" where
  "api_inv E V r sp w = (cached_inv E V r w \<and> spawned w = sp)"

interpretation api_repo: url_repository "CachedURLRepository E r" V "api_inv E V r sp" storable for E V r sp
proof (unfold_locales, goal_cases)
  case (1 w ctx code)
  then have inv: "cached_inv E V r w" by (simp add: api_inv_def)
  from 1 show ?case
    by (intro wp_mono [OF wp_conj [OF cached_repo.get_spec [OF inv] cached_spawned(1) [OF inv, folded cached_simps]]]) (auto simp: api_inv_def)
next
  case (2 w u ctx)
  then have inv: "cached_inv E V r w" by (simp add: api_inv_def)
  from 2 show ?case
    by (intro wp_mono [OF wp_conj [OF cached_repo.create_spec [OF inv 2(2,3)] cached_spawned(2) [OF inv 2(2,3), folded cached_simps]]]) (auto simp: api_inv_def)
next
  case (3 w ctx code)
  then have inv: "cached_inv E V r w" by (simp add: api_inv_def)
  from 3 show ?case
    by (intro wp_mono [OF wp_conj [OF cached_repo.delete_spec [OF inv] cached_spawned(3) [OF inv, folded cached_simps]]]) (auto simp: api_inv_def)
qed

interpretation api_service:
  service_host "CachedURLRepository E r" V "api_inv E V r sp" storable E json_time_ok for E V r sp
  by unfold_locales (auto dest: cached_inv_clock simp: storable_def api_inv_def)

definition expiry_fits :: "'x env \<Rightarrow> create_url_request \<Rightarrow> 'x world \<Rightarrow> bool" where
  "expiry_fits E req w = pred_option json_time_ok (requested_expiry E req w)"

interpretation gateway_api: service_api "URLService E (NewURLService E r base len retries)" V "api_inv E V r sp"
  sp "\<lambda>req w. expiry_fits E req w \<and> 0 \<le> len" E for E V r base len retries sp
proof (unfold_locales, goal_cases)
  case (1 w)
  then show ?case by (simp add: api_inv_def)
next
  case (2 w t x)
  then show ?case by (auto simp: api_inv_def dest: cached_inv_clock(1))
next
  case (3 w req ctx)
  then show ?case
    unfolding URLService_def url_service_interface.simps
    by (intro wp_mono [OF api_service.CreateShortURL_wp [OF 3(1)]])
       (auto simp: expiry_fits_def service_repo create_outcome_def code_outcome_def added_def stored_under_def
         split: sum.splits if_splits)
next
  case (4 w ctx code)
  show ?case
    unfolding URLService_def url_service_interface.simps GetURL_def wp_bind
    by (rule wp_mono [OF api_service.getAndValidateURL_wp [OF 4]])
       (auto simp: service_repo wp_simps lookup_outcome_def api_lookup_def url_matches_def split: sum.splits)
next
  case (5 w ctx code)
  show ?case
    unfolding URLService_def url_service_interface.simps Redirect_def wp_bind
    by (rule wp_mono [OF api_service.getAndValidateURL_wp [OF 5]])
       (auto simp: service_repo wp_simps lookup_outcome_def api_lookup_def url_matches_def split: sum.splits)
next
  case (6 w ctx code)
  show ?case
    unfolding URLService_def url_service_interface.simps
    by (rule wp_mono [OF api_service.DeleteURL_wp [OF 6]]) (auto simp: service_repo split: option.splits)
qed

section \<open>Properties\<close>

text \<open>The handler the server builds around the service.\<close>

definition gateway_handler ::
  "'x env \<Rightarrow> 'x cached_repository \<Rightarrow> string \<Rightarrow> int \<Rightarrow> int \<Rightarrow> (ctx \<Rightarrow> ('x world, bool) go) \<Rightarrow> (ctx \<Rightarrow> ('x world, bool) go)
   \<Rightarrow> ('x world, bool) go option \<Rightarrow> ('x world, string) go option \<Rightarrow> 'x handler" where
  "gateway_handler E r base len retries db cache publisher rlCB =
     WithCBProviders (NewHandler (URLService E (NewURLService E r base len retries)) db cache publisher)
       (Some (CBState E)) rlCB"

lemma gateway_handler_service:
  "h_urlService (gateway_handler E r base len retries db cache publisher rlCB) = URLService E (NewURLService E r base len retries)"
  by (simp add: gateway_handler_def WithCBProviders_def NewHandler_def Let_def)

definition demo_handler :: "sim handler" where
  "demo_handler = gateway_handler (sim_env False) (demo_repo False) ''http://s'' 6 3
     (\<lambda>ctx. go_ret False) (\<lambda>ctx. go_ret False) None None"

definition demo_rq :: "create_url_request option \<Rightarrow> string \<Rightarrow> request" where
  "demo_rq body code = \<lparr>rq_ctx = ReqCtx 1, rq_body = body, rq_code = code, rq_ClientIP = ''10.0.0.1'', rq_Referer = ''''\<rparr>"

lemma demo_api_inv: "api_inv (sim_env False) sim_view (demo_repo False) [] demo_world"
  using demo_inv by (simp add: api_inv_def) (simp add: demo_world_def)





text \<open>
  The deletion handler answers 204 when there was a row, which is gone; 404 when there was none;
  and 500 having changed nothing.
\<close>

theorem deleteURL_correct:
  assumes "api_inv E V r sp w"
  shows "wp (deleteURL (gateway_handler E r base len retries db cache publisher rlCB) c)
    (\<lambda>resp w'. spawned w' = sp \<and>
       (rsp_status resp = 204 \<and> rows V (ext w) (rq_code c) \<noteq> None \<and> rows V (ext w') = (rows V (ext w))(rq_code c := None)
        \<or> rsp_status resp = 404 \<and> rows V (ext w) (rq_code c) = None \<and> rows V (ext w') = rows V (ext w)
        \<or> rsp_status resp = 500 \<and> rows V (ext w') = rows V (ext w))) w"
  by (rule gateway_api.deleteURL_wp [OF assms gateway_handler_service])

theorem deleteURL_correct_witness:
  "wp (deleteURL demo_handler (demo_rq None ''x''))
    (\<lambda>resp w'. rsp_status resp = 404 \<or> rsp_status resp = 500) demo_world"
proof -
  have m: "rows sim_view (ext demo_world) = (\<lambda>_. None)"
    by (simp add: sim_view_def demo_world_def sim_start_def)
  show ?thesis
    unfolding demo_handler_def
    by (rule wp_mono [OF deleteURL_correct [OF demo_api_inv]]) (auto simp: m)
qed

text \<open>
  The health report is 503 exactly when a ping failed. An open breaker over a reachable cache
  shows up as a degraded status in a 200 report.
\<close>

theorem healthCheck_correct:
  assumes "h_cache_Ping h (rq_ctx c) w = (Ret cacheErr, w1)" and "h_db_Ping h (rq_ctx c) w1 = (Ret dbErr, w2)"
    and "optional (h_cacheCBState h) w2 = (Ret cb, w3)" and "optional (h_rateLimCBState h) w3 = (Ret rl, w4)"
    and "optional (h_publisher h) w4 = (Ret conn, w5)"
  shows "\<exists>resp report. healthCheck h c w = (Ret resp, w5) \<and> rsp_body resp = HealthBody report
    \<and> (rsp_status resp = 503 \<longleftrightarrow> cacheErr \<or> dbErr) \<and> (rsp_status resp = 200 \<longleftrightarrow> \<not> cacheErr \<and> \<not> dbErr)
    \<and> (hr_status report = ''ok'' \<longleftrightarrow> \<not> cacheErr \<and> \<not> dbErr \<and> cb \<noteq> Some ''open'')
    \<and> (hr_cache report = ''down'' \<longleftrightarrow> cacheErr) \<and> (hr_database report = ''down'' \<longleftrightarrow> dbErr)"
  using assms by (simp add: healthCheck_def go_simps Let_def)

theorem healthCheck_correct_witness:
  "\<exists>resp report. healthCheck demo_handler (demo_rq None '''') demo_world = (Ret resp, demo_world)
    \<and> rsp_status resp = 200 \<and> rsp_body resp = HealthBody report \<and> hr_status report = ''ok''"
proof -
  have cb: "CBState (sim_env False) demo_world = (Ret ''closed'', demo_world)"
    by (simp add: CBState_def cb_state_String_def go_simps call_def sim_env_def)
  show ?thesis
    using healthCheck_correct [of demo_handler "demo_rq None ''''" demo_world False demo_world False demo_world
        "Some ''closed''" demo_world None demo_world None demo_world]
    by (auto simp: demo_handler_def gateway_handler_def WithCBProviders_def NewHandler_def Let_def optional_def
        go_simps cb)
qed

text \<open>
  A short code reaches the redirect handler exactly when it is non-empty and is neither
  \<open>health\<close> nor \<open>metrics\<close>. A custom alias of one of these names can be created and never
  followed.
\<close>

theorem redirect_route:
  "dispatch ''GET'' [code] = Some (RedirectEndpoint, Some code) \<longleftrightarrow> code \<notin> {'''', ''health'', ''metrics''}"
  by (auto simp: dispatch_def router_routes_def RegisterRoutes_def map_filter_simps Let_def)

end
