(* ===== verification/Rate_Limiter.thy ===== *)
theory Rate_Limiter
  imports Api_Handler
begin

text \<open>
  The rate limiting of requests: the client of the limiter service
  (\<^verbatim>\<open>internal/ratelimit/client.go\<close>) behind its own circuit breaker, and the middleware
  that applies its verdict (\<^verbatim>\<open>internal/middleware/ratelimit.go\<close>), with the log level of
  the logging middleware. The limiter itself is a remote service and a parameter, as is gobreaker;
  \<open>rl_Execute\<close> is the breaker's documented contract with the default success rule (no error).
\<close>

section \<open>Definitions\<close>

text \<open>\<^verbatim>\<open>RateLimitResponse\<close>: the counts keep their widths.\<close>

record rate_limit_response =
  rl_Allowed :: bool
  rl_Remaining :: "32 word"
  rl_RetryAfterMs :: "64 word"

datatype rl_err = RlBreaker cb_err | RlGrpc string

record 'x rl_env =
  rl_before :: "'x \<Rightarrow> cb_err option \<times> 'x"
  rl_after :: "bool \<Rightarrow> 'x \<Rightarrow> 'x"
  rl_State :: "'x \<Rightarrow> cb_state \<times> 'x"
  stub_CheckRateLimit :: "ctx \<Rightarrow> string \<Rightarrow> 'x \<Rightarrow> (string + rate_limit_response) \<times> 'x"

record rl_client =
  rlc_open :: bool \<comment> \<open>the gRPC connection\<close>
  rlc_timeout :: int
  rlc_MaxRequests :: "32 word"
  rlc_Interval :: int
  rlc_BreakerTimeout :: int
  rlc_ReadyToTrip :: "cb_counts \<Rightarrow> bool"

text \<open>The connection is lazy: only an unusable address (the parameter \<open>dialable\<close>) is an error.\<close>

definition NewClient :: "(string \<Rightarrow> bool) \<Rightarrow> string \<Rightarrow> int \<Rightarrow> rl_client option" where
  "NewClient dialable addr timeout =
     (if \<not> dialable addr then None
      else Some \<lparr>rlc_open = True, rlc_timeout = timeout, rlc_MaxRequests = 3, rlc_Interval = 10 * Second,
        rlc_BreakerTimeout = 30 * Second, rlc_ReadyToTrip = (\<lambda>counts. 5 \<le> cnt_ConsecutiveFailures counts)\<rparr>)"

definition rl_Execute :: "'x rl_env \<Rightarrow> ('x world, rl_err + 'a) go \<Rightarrow> ('x world, rl_err + 'a) go" where
  "rl_Execute L req =
     go_bind (call (rl_before L))
       (\<lambda>rejected. case rejected of
          Some e \<Rightarrow> go_ret (Inl (RlBreaker e))
        | None \<Rightarrow>
            go_try req
              (\<lambda>res. go_then (call (\<lambda>x. ((), rl_after L (\<not> isl res) x))) (go_ret res))
              (\<lambda>msg. go_then (call (\<lambda>x. ((), rl_after L False x))) (go_panic msg)))"

text \<open>Allowed, remaining, the delay in milliseconds, and the error.\<close>

definition Check ::
  "'x rl_env \<Rightarrow> rl_client \<Rightarrow> ctx \<Rightarrow> string \<Rightarrow> ('x world, bool \<times> 32 word \<times> 64 word \<times> rl_err option) go" where
  "Check L c ctx ip =
     (let callCtx = WithTimeout ctx (rlc_timeout c) in
      go_bind
        (rl_Execute L (go_bind (call (stub_CheckRateLimit L callCtx ip)) (\<lambda>res. go_ret (map_sum RlGrpc id res))))
        (\<lambda>res. case res of
           Inl cbErr \<Rightarrow> go_ret (True, 0, 0, Some cbErr)
         | Inr resp \<Rightarrow> go_ret (rl_Allowed resp, rl_Remaining resp, rl_RetryAfterMs resp, None)))"

definition rl_Close :: "rl_client \<Rightarrow> rl_client" where
  "rl_Close c = c\<lparr>rlc_open := False\<rparr>"

definition rl_CBState :: "'x rl_env \<Rightarrow> ('x world, string) go" where
  "rl_CBState L = go_bind (call (rl_State L)) (\<lambda>s. go_ret (cb_state_String s))"

text \<open>
  The middleware around the rest of the chain: the headers it sets, and the response, its own or the
  chain's. The two counts are signed.
\<close>

definition RateLimit ::
  "'x rl_env \<Rightarrow> rl_client \<Rightarrow> (request \<Rightarrow> ('x world, response) go) \<Rightarrow> request
   \<Rightarrow> ('x world, (string \<times> string) list \<times> response) go" where
  "RateLimit L client next_handler c =
     go_bind (Check L client (rq_ctx c) (rq_ClientIP c)) (\<lambda>(allowed, remaining, retryAfterMs, err).
       if err \<noteq> None then go_bind (next_handler c) (\<lambda>resp. go_ret ([], resp))
       else if \<not> allowed then
         go_ret ([(''X-RateLimit-Remaining'', ''0''), (''Retry-After'', Itoa (go_div (sint retryAfterMs) 1000))],
           \<lparr>rsp_status = 429, rsp_body = ErrorBody \<lparr>err_Error = ''Too Many Requests'', err_Message = ''rate limit exceeded''\<rparr>\<rparr>)
       else go_bind (next_handler c) (\<lambda>resp. go_ret ([(''X-RateLimit-Remaining'', Itoa (sint remaining))], resp)))"

text \<open>\<^verbatim>\<open>internal/middleware/logging.go\<close>: the level a finished request is logged at.\<close>

definition request_log_level :: "nat \<Rightarrow> log_level" where
  "request_log_level status =
     (if 500 \<le> status then LevelError else if 400 \<le> status then LevelWarn else LevelInfo)"

section \<open>Properties\<close>

text \<open>What the limiter service answers in a state, if the breaker lets the call through.\<close>

definition verdict :: "'x rl_env \<Rightarrow> rl_client \<Rightarrow> request \<Rightarrow> 'x world \<Rightarrow> rate_limit_response option" where
  "verdict L client c w =
     (case rl_before L (ext w) of
        (Some e, x) \<Rightarrow> None
      | (None, x) \<Rightarrow>
          (case fst (stub_CheckRateLimit L (WithTimeout (rq_ctx c) (rlc_timeout client)) (rq_ClientIP c) x) of
             Inl e \<Rightarrow> None | Inr resp \<Rightarrow> Some resp))"

lemma Check_verdict:
  "wp (Check L client (rq_ctx c) (rq_ClientIP c))
    (\<lambda>(allowed, remaining, retryAfterMs, err) w'. (\<exists>x. w' = w\<lparr>ext := x\<rparr>) \<and>
       (case verdict L client c w of
          None \<Rightarrow> allowed \<and> err \<noteq> None
        | Some resp \<Rightarrow> (allowed, remaining, retryAfterMs, err) = (rl_Allowed resp, rl_Remaining resp, rl_RetryAfterMs resp, None))) w"
proof -
  obtain b x where b: "rl_before L (ext w) = (b, x)" by force
  obtain r y where r: "stub_CheckRateLimit L (WithTimeout (rq_ctx c) (rlc_timeout client)) (rq_ClientIP c) x = (r, y)" by force
  show ?thesis
    by (cases b; cases r)
       (auto simp add: Check_def rl_Execute_def verdict_def b r Let_def wp_def go_simps call_def)
qed

text \<open>The limiter is a service of its own: asking it changes no row and adds no cache entry.\<close>

definition limiter_law :: "'x rl_env \<Rightarrow> 'x view \<Rightarrow> bool" where
  "limiter_law L V =
     ((\<forall>x. keeps V x (snd (rl_before L x))) \<and> (\<forall>b x. keeps V x (rl_after L b x))
      \<and> (\<forall>x. keeps V x (snd (rl_State L x)))
      \<and> (\<forall>ctx ip x. keeps V x (snd (stub_CheckRateLimit L ctx ip x))))"

lemma Check_keeps:
  assumes "limiter_law L V"
  shows "wp (Check L client ctx ip) (\<lambda>res w'. keeps V (ext w) (ext w')) w"
proof -
  obtain b x where b: "rl_before L (ext w) = (b, x)" by force
  obtain r y where r: "stub_CheckRateLimit L (WithTimeout ctx (rlc_timeout client)) ip x = (r, y)" by force
  have "keeps V (ext w) x" "keeps V x y" "keeps V y (rl_after L ok y)" for ok
    using assms b r unfolding limiter_law_def by (metis snd_conv)+
  then show ?thesis
    by (cases b; cases r)
       (auto simp add: Check_def rl_Execute_def b r Let_def wp_def go_simps call_def intro: keeps_trans)
qed


text \<open>A limiter that refuses everybody for 1500 ms, behind a closed breaker.\<close>

definition demo_limiter :: "sim rl_env" where
  "demo_limiter =
     \<lparr>rl_before = (\<lambda>x. (None, x)), rl_after = (\<lambda>b x. x), rl_State = (\<lambda>x. (StateClosed, x)),
      stub_CheckRateLimit = (\<lambda>ctx ip x. (Inr \<lparr>rl_Allowed = False, rl_Remaining = 0, rl_RetryAfterMs = 1500\<rparr>, x))\<rparr>"

definition demo_rl_client :: rl_client where
  "demo_rl_client = the (NewClient (\<lambda>_. True) ''limiter:50051'' (100 * Millisecond))"


text \<open>
  The \<open>Retry-After\<close> header of a refused request is the delay in whole seconds, rounded
  down: a client that waits as long as it is told comes back up to a second early, and a delay below
  a second is announced as zero.
\<close>

theorem RateLimit_retry_after:
  assumes "verdict L client c w = Some v" and "\<not> rl_Allowed v" and "0 \<le> sint (rl_RetryAfterMs v)"
  shows "wp (RateLimit L client next_handler c)
    (\<lambda>(hdrs, resp) w'. \<exists>seconds. map_of hdrs ''Retry-After'' = Some (Itoa seconds)
       \<and> seconds * 1000 \<le> sint (rl_RetryAfterMs v) \<and> sint (rl_RetryAfterMs v) < (seconds + 1) * 1000) w"
proof -
  let ?ms = "sint (rl_RetryAfterMs v)"
  have "go_div ?ms 1000 = ?ms div 1000" using assms(3) by (auto simp: go_div_def sgn_if)
  then have "go_div ?ms 1000 * 1000 \<le> ?ms" "?ms < (go_div ?ms 1000 + 1) * 1000" by (simp, presburger)+
  then show ?thesis
    unfolding RateLimit_def wp_bind
    by (intro wp_mono [OF Check_verdict]) (use assms in \<open>auto simp: wp_simps split: prod.splits\<close>)
qed

theorem RateLimit_retry_after_witness:
  "wp (RateLimit demo_limiter demo_rl_client (\<lambda>c. go_ret \<lparr>rsp_status = 200, rsp_body = NoBody\<rparr>) (demo_rq None ''x''))
    (\<lambda>(hdrs, resp) w'. map_of hdrs ''Retry-After'' = Some (Itoa 1)) demo_world"
proof -
  have v: "verdict demo_limiter demo_rl_client (demo_rq None ''x'') demo_world
      = Some \<lparr>rl_Allowed = False, rl_Remaining = 0, rl_RetryAfterMs = 1500\<rparr>"
    by (simp add: verdict_def demo_limiter_def)
  have s: "sint (1500 :: 64 word) = 1500" by simp
  have one: "seconds = 1" if "seconds * 1000 \<le> 1500" "1500 < (seconds + 1) * 1000" for seconds :: int
  proof -
    have "seconds < 2" "0 < seconds" using that by (simp_all add: distrib_right)
    then show ?thesis by simp
  qed
  show ?thesis
    by (rule wp_mono [OF RateLimit_retry_after [OF v]]) (use one in \<open>fastforce simp: s\<close>)+
qed

end
