(* ===== verification/Publisher.thy ===== *)
theory Publisher
  imports Url_Model
begin

text \<open>
  \<^verbatim>\<open>internal/analytics/publisher.go\<close>: the publisher of click events and its reconnecting
  goroutine. The goroutine and a concurrent \<^verbatim>\<open>Close\<close> are a step relation whose steps
  are the code's atomic pieces: what runs under one acquisition of the mutex, one access of the
  atomic flag, one blocking call. The broker is seen through the set of open connections; an AMQP
  channel is named by its connection, which every channel here is alone on.
\<close>

section \<open>Exponential backoff\<close>

text \<open>
  Both services double a delay after each failed attempt while it is below a cap. The interface is
  shared by the publisher and by the worker's dial loop.
\<close>

locale doubling_backoff =
  fixes start :: int and cap :: int and next_delay :: "int \<Rightarrow> int"
  assumes start_pos: "0 < start"
    and next_delay: "next_delay b = (if b < cap then b * 2 else b)"
begin

text \<open>The delay after \<open>n\<close> failed attempts.\<close>

abbreviation delay :: "nat \<Rightarrow> int" where
  "delay n \<equiv> (next_delay ^^ n) start"

lemma delay_Suc: "delay (Suc n) = (if delay n < cap then delay n * 2 else delay n)"
  using next_delay [of "delay n"] by simp

lemma delay_pos: "0 < delay n"
  by (induction n) (simp_all add: start_pos delay_Suc del: funpow.simps(2))

lemma delay_mono: "delay n \<le> delay (Suc n)"
  using delay_pos [of n] by (simp add: delay_Suc del: funpow.simps(2))

lemma delay_bound: "start < 2 * cap \<Longrightarrow> delay n < 2 * cap"
  by (induction n) (simp_all add: delay_Suc del: funpow.simps(2))

lemma delay_doubles: "(\<And>m. m < n \<Longrightarrow> start * 2 ^ m < cap) \<Longrightarrow> delay n = start * 2 ^ n"
  by (induction n) (simp_all add: delay_Suc del: funpow.simps(2))

lemma delay_stays: "cap \<le> delay n \<Longrightarrow> n \<le> m \<Longrightarrow> delay m = delay n"
  by (induction m) (auto simp: delay_Suc le_Suc_eq simp del: funpow.simps(2))

end

section \<open>Definitions\<close>

definition exchangeName :: string where "exchangeName = ''analytics''"
definition routingKey :: string where "routingKey = ''analytics.clicks''"
definition publisherHeartbeat :: int where "publisherHeartbeat = 2 * Second"

type_synonym conn = nat

record publisher =
  pub_conn :: "conn option"
  pub_channel :: "conn option"
  pub_closed :: bool

text \<open>
  \<^verbatim>\<open>dial\<close> against a broker that yields a fresh connection or none, and then accepts or
  refuses the channel and the exchange; a connection that cannot be used is closed again.
\<close>

definition dial :: "conn option \<Rightarrow> bool \<Rightarrow> bool \<Rightarrow> conn set \<Rightarrow> conn option \<times> conn set" where
  "dial connected channel_ok exchange_ok live =
     (case connected of
        None \<Rightarrow> (None, live)
      | Some n \<Rightarrow>
          let live1 = insert n live in
          if \<not> channel_ok then (None, live1 - {n})
          else if \<not> exchange_ok then (None, live1 - {n})
          else (Some n, live1))"

text \<open>\<open>Inr None\<close> is the nil publisher of a deployment without a broker.\<close>

definition NewPublisher ::
  "string \<Rightarrow> conn option \<Rightarrow> bool \<Rightarrow> bool \<Rightarrow> conn set \<Rightarrow> (unit + publisher option) \<times> conn set" where
  "NewPublisher amqpURL connected channel_ok exchange_ok live =
     (if amqpURL = '''' then (Inr None, live)
      else (case dial connected channel_ok exchange_ok live of
              (None, live') \<Rightarrow> (Inl (), live')
            | (Some n, live') \<Rightarrow> (Inr (Some \<lparr>pub_conn = Some n, pub_channel = Some n, pub_closed = False\<rparr>), live')))"

definition NewDegradedPublisher :: publisher where
  "NewDegradedPublisher = \<lparr>pub_conn = None, pub_channel = None, pub_closed = False\<rparr>"

text \<open>
  What \<^verbatim>\<open>Publish\<close> sends: nothing, or one persistent message. Whether the broker takes it
  is only logged.
\<close>

record publishing =
  pub_on :: conn
  pub_exchange :: string
  pub_key :: string
  pub_ContentType :: string
  pub_persistent :: bool
  pub_body :: string

definition Publish :: "(click_event \<Rightarrow> string option) \<Rightarrow> publisher option \<Rightarrow> click_event \<Rightarrow> publishing list" where
  "Publish marshal p event =
     (case p of
        None \<Rightarrow> []
      | Some p \<Rightarrow>
          (case pub_channel p of
             None \<Rightarrow> []
           | Some ch \<Rightarrow>
               (case marshal event of
                  None \<Rightarrow> []
                | Some body \<Rightarrow>
                    [\<lparr>pub_on = ch, pub_exchange = exchangeName, pub_key = routingKey,
                      pub_ContentType = ''application/json'', pub_persistent = True, pub_body = body\<rparr>])))"

definition IsConnected :: "publisher option \<Rightarrow> bool" where
  "IsConnected p = (case p of None \<Rightarrow> False | Some p \<Rightarrow> pub_channel p \<noteq> None)"

text \<open>\<^verbatim>\<open>Close\<close>: first the flag, then the rest under the lock.\<close>

definition close_flag :: "publisher \<Rightarrow> publisher" where
  "close_flag p = p\<lparr>pub_closed := True\<rparr>"

definition close_locked :: "publisher \<times> conn set \<Rightarrow> publisher \<times> conn set" where
  "close_locked = (\<lambda>(p, live).
     let p1 = (if pub_channel p \<noteq> None then p\<lparr>pub_channel := None\<rparr> else p)
     in case pub_conn p1 of
          None \<Rightarrow> (p1, live)
        | Some c \<Rightarrow> (p1\<lparr>pub_conn := None\<rparr>, live - {c}))"

definition Close :: "publisher option \<times> conn set \<Rightarrow> publisher option \<times> conn set" where
  "Close = (\<lambda>(p, live). case p of
       None \<Rightarrow> (None, live)
     | Some p \<Rightarrow> (case close_locked (close_flag p, live) of (p', live') \<Rightarrow> (Some p', live')))"

subsection \<open>The reconnecting goroutine\<close>

text \<open>Where \<^verbatim>\<open>watchAndReconnect\<close> stands, and how far a concurrent \<^verbatim>\<open>Close\<close> got.\<close>

datatype watcher =
    ReadConn              \<comment> \<open>top of the outer loop\<close>
  | Waiting conn          \<comment> \<open>blocked on the close notification\<close>
  | Notified              \<comment> \<open>about to load the flag\<close>
  | Degrade               \<comment> \<open>about to clear the channel\<close>
  | Retry int             \<comment> \<open>top of the inner loop, with the backoff\<close>
  | Dialing int           \<comment> \<open>after the sleep\<close>
  | Install conn          \<comment> \<open>dialled, about to take the lock\<close>
  | Returned

datatype closer = NotClosing | FlagSet | CloseReturned

record pub_world =
  pw_pub :: publisher
  pw_live :: "conn set"
  pw_watcher :: watcher
  pw_closer :: closer

definition initialBackoff :: int where "initialBackoff = 1 * Second"
definition maxBackoff :: int where "maxBackoff = 30 * Second"

definition next_backoff :: "int \<Rightarrow> int" where
  "next_backoff backoff = (if backoff < maxBackoff then backoff * 2 else backoff)"

text \<open>One step of the goroutine; \<open>connected\<close>, \<open>channel_ok\<close> and \<open>exchange_ok\<close> are the broker's part.\<close>

inductive watch_step :: "pub_world \<Rightarrow> pub_world \<Rightarrow> bool" where
  read_nil: "pw_watcher s = ReadConn \<Longrightarrow> pub_conn (pw_pub s) = None \<Longrightarrow>
    watch_step s (s\<lparr>pw_watcher := Returned\<rparr>)"
| read_conn: "pw_watcher s = ReadConn \<Longrightarrow> pub_conn (pw_pub s) = Some c \<Longrightarrow>
    watch_step s (s\<lparr>pw_watcher := Waiting c\<rparr>)"
| notified: "pw_watcher s = Waiting c \<Longrightarrow> c \<notin> pw_live s \<Longrightarrow>
    watch_step s (s\<lparr>pw_watcher := Notified\<rparr>)"
| check_closed: "pw_watcher s = Notified \<Longrightarrow>
    watch_step s (s\<lparr>pw_watcher := if pub_closed (pw_pub s) then Returned else Degrade\<rparr>)"
| degrade: "pw_watcher s = Degrade \<Longrightarrow>
    watch_step s (s\<lparr>pw_pub := (pw_pub s)\<lparr>pub_channel := None\<rparr>, pw_watcher := Retry initialBackoff\<rparr>)"
| retry: "pw_watcher s = Retry b \<Longrightarrow>
    watch_step s (s\<lparr>pw_watcher := if pub_closed (pw_pub s) then Returned else Dialing b\<rparr>)"
| dialled: "pw_watcher s = Dialing b \<Longrightarrow>
    (\<And>n. connected = Some n \<Longrightarrow> n \<notin> pw_live s) \<Longrightarrow>
    dial connected channel_ok exchange_ok (pw_live s) = (res, live') \<Longrightarrow>
    watch_step s (s\<lparr>pw_live := live',
      pw_watcher := (case res of None \<Rightarrow> Retry (next_backoff b) | Some n \<Rightarrow> Install n)\<rparr>)"
| install: "pw_watcher s = Install n \<Longrightarrow>
    watch_step s (s\<lparr>pw_pub := (pw_pub s)\<lparr>pub_conn := Some n, pub_channel := Some n\<rparr>, pw_watcher := ReadConn\<rparr>)"

text \<open>The steps of a concurrent \<^verbatim>\<open>Close\<close>, and of the network.\<close>

inductive close_step :: "pub_world \<Rightarrow> pub_world \<Rightarrow> bool" where
  set_flag: "pw_closer s = NotClosing \<Longrightarrow>
    close_step s (s\<lparr>pw_pub := close_flag (pw_pub s), pw_closer := FlagSet\<rparr>)"
| locked: "pw_closer s = FlagSet \<Longrightarrow> close_locked (pw_pub s, pw_live s) = (p, live) \<Longrightarrow>
    close_step s (s\<lparr>pw_pub := p, pw_live := live, pw_closer := CloseReturned\<rparr>)"

inductive drop_step :: "pub_world \<Rightarrow> pub_world \<Rightarrow> bool" where
  drop: "c \<in> pw_live s \<Longrightarrow> drop_step s (s\<lparr>pw_live := pw_live s - {c}\<rparr>)"

inductive pub_reach :: "pub_world \<Rightarrow> bool" where
  start: "pub_reach \<lparr>pw_pub = \<lparr>pub_conn = Some c, pub_channel = Some c, pub_closed = False\<rparr>, pw_live = {c},
     pw_watcher = ReadConn, pw_closer = NotClosing\<rparr>"
| watch: "pub_reach s \<Longrightarrow> watch_step s t \<Longrightarrow> pub_reach t"
| close: "pub_reach s \<Longrightarrow> close_step s t \<Longrightarrow> pub_reach t"
| drop: "pub_reach s \<Longrightarrow> drop_step s t \<Longrightarrow> pub_reach t"

section \<open>Lemmas\<close>

interpretation publisher_backoff: doubling_backoff initialBackoff maxBackoff next_backoff
  by unfold_locales (simp_all add: initialBackoff_def next_backoff_def Second_def)

lemma backoff_value: "(next_backoff ^^ n) initialBackoff = (if n \<le> 5 then 2 ^ n else 32) * Second"
proof (cases "n \<le> 5")
  case True
  have "initialBackoff * 2 ^ m < maxBackoff" if "m < n" for m
  proof -
    have "(2 :: int) ^ m \<le> 2 ^ 4" using that True by (intro power_increasing) simp_all
    then show ?thesis by (simp add: initialBackoff_def maxBackoff_def Second_def)
  qed
  with True show ?thesis by (simp add: publisher_backoff.delay_doubles) (simp add: initialBackoff_def)
next
  case False
  have "(next_backoff ^^ 5) initialBackoff = 32 * Second"
    by (simp add: next_backoff_def initialBackoff_def maxBackoff_def Second_def numeral_eq_Suc)
  with False publisher_backoff.delay_stays [of 5 n] show ?thesis
    by (simp add: maxBackoff_def Second_def)
qed

text \<open>The goroutine has tested the flag and will install whatever it dials.\<close>

definition past_check :: "watcher \<Rightarrow> bool" where
  "past_check w = (case w of Dialing b \<Rightarrow> True | Install n \<Rightarrow> True | _ \<Rightarrow> False)"

text \<open>
  The invariant: the channel is the connection's; while the goroutine reconnects there is no channel
  and no connection is open but the one just dialled; otherwise at most the publisher's connection is.
\<close>

definition live_ok :: "conn option \<Rightarrow> conn set \<Rightarrow> watcher \<Rightarrow> bool" where
  "live_ok c live w =
     (case w of
        ReadConn \<Rightarrow> live \<subseteq> set_option c
      | Waiting d \<Rightarrow> live \<subseteq> set_option c \<and> set_option c \<subseteq> {d}
      | Install n \<Rightarrow> live \<subseteq> {n}
      | Returned \<Rightarrow> live \<subseteq> set_option c
      | _ \<Rightarrow> live = {})"

definition degraded :: "watcher \<Rightarrow> bool" where
  "degraded w = (case w of Retry b \<Rightarrow> True | Dialing b \<Rightarrow> True | Install n \<Rightarrow> True | _ \<Rightarrow> False)"

definition is_backoff :: "int \<Rightarrow> bool" where
  "is_backoff b = (\<exists>n. b = (next_backoff ^^ n) initialBackoff)"

definition backoff_ok :: "watcher \<Rightarrow> bool" where
  "backoff_ok w = (case w of Retry b \<Rightarrow> is_backoff b | Dialing b \<Rightarrow> is_backoff b | _ \<Rightarrow> True)"

definition pub_inv :: "pub_world \<Rightarrow> bool" where
  "pub_inv s =
     ((pub_channel (pw_pub s) \<noteq> None \<longrightarrow> pub_channel (pw_pub s) = pub_conn (pw_pub s))
      \<and> (degraded (pw_watcher s) \<longrightarrow> pub_channel (pw_pub s) = None)
      \<and> (pub_closed (pw_pub s) \<longleftrightarrow> pw_closer s \<noteq> NotClosing)
      \<and> live_ok (pub_conn (pw_pub s)) (pw_live s) (pw_watcher s)
      \<and> backoff_ok (pw_watcher s))"

lemma is_backoff_first: "is_backoff initialBackoff"
  unfolding is_backoff_def by (rule exI [of _ 0]) simp

lemma is_backoff_next: "is_backoff b \<Longrightarrow> is_backoff (next_backoff b)"
  unfolding is_backoff_def by (metis funpow.simps(2) comp_apply)

lemmas pub_inv_simps = pub_inv_def live_ok_def degraded_def backoff_ok_def is_backoff_first is_backoff_next

lemma dial_result:
  assumes "dial connected channel_ok exchange_ok live = (res, live')"
  shows "res = None \<and> live' \<subseteq> live \<or> (\<exists>n. res = Some n \<and> live' = insert n live)"
  using assms by (auto simp: dial_def Let_def split: option.splits if_splits)

lemma watch_step_inv: "watch_step s t \<Longrightarrow> pub_inv s \<Longrightarrow> pub_inv t"
proof (induction rule: watch_step.induct)
  case (dialled s b connected channel_ok exchange_ok res live')
  from dial_result [OF dialled(3)] dialled(1,4) show ?case
    by (auto simp: pub_inv_simps)
qed (auto simp: pub_inv_simps split: if_splits)

lemma close_step_inv: "close_step s t \<Longrightarrow> pub_inv s \<Longrightarrow> pub_inv t"
proof (induction rule: close_step.induct)
  case (set_flag s)
  then show ?case by (auto simp: pub_inv_simps close_flag_def split: watcher.splits)
next
  case (locked s p live)
  then show ?case
    by (auto simp: pub_inv_simps close_locked_def Let_def split: option.splits if_splits watcher.splits)
qed

lemma drop_step_inv: "drop_step s t \<Longrightarrow> pub_inv s \<Longrightarrow> pub_inv t"
  by (induction rule: drop_step.induct) (auto simp: pub_inv_simps split: watcher.splits)

lemma pub_reach_inv: "pub_reach s \<Longrightarrow> pub_inv s"
proof (induction rule: pub_reach.induct)
  case (start c)
  then show ?case by (simp add: pub_inv_simps)
qed (blast intro: watch_step_inv close_step_inv drop_step_inv)+

text \<open>While it is not closed, the publisher has a connection and a goroutine that looks after it.\<close>

definition attended :: "pub_world \<Rightarrow> bool" where
  "attended s =
     (pub_conn (pw_pub s) \<noteq> None \<and> pw_watcher s \<noteq> Returned
      \<and> (\<forall>c. pw_watcher s = Waiting c \<longrightarrow> pub_conn (pw_pub s) = Some c)
      \<and> (\<not> degraded (pw_watcher s) \<longrightarrow> pub_channel (pw_pub s) = pub_conn (pw_pub s)))"

lemma watch_step_attended:
  "watch_step s t \<Longrightarrow> attended s \<Longrightarrow> \<not> pub_closed (pw_pub s) \<Longrightarrow> attended t \<and> \<not> pub_closed (pw_pub t)"
  by (induction rule: watch_step.induct) (auto simp: attended_def degraded_def split: option.splits)

lemma close_step_closes: "close_step s t \<Longrightarrow> pub_inv s \<Longrightarrow> pub_closed (pw_pub t)"
  by (induction rule: close_step.induct)
     (auto simp: close_flag_def close_locked_def pub_inv_def Let_def split: option.splits if_splits)

lemma watch_step_closed: "watch_step s t \<Longrightarrow> pub_closed (pw_pub t) = pub_closed (pw_pub s)"
  by (induction rule: watch_step.induct) auto

lemma drop_step_closed: "drop_step s t \<Longrightarrow> pub_closed (pw_pub t) = pub_closed (pw_pub s) \<and> attended t = attended s"
  by (induction rule: drop_step.induct) (simp add: attended_def)

lemma pub_reach_attended: "pub_reach s \<Longrightarrow> \<not> pub_closed (pw_pub s) \<Longrightarrow> attended s"
proof (induction rule: pub_reach.induct)
  case (start c)
  then show ?case by (simp add: attended_def)
next
  case (watch s t)
  then show ?case using watch_step_attended watch_step_closed by blast
next
  case (close s t)
  then show ?case using close_step_closes pub_reach_inv by blast
next
  case (drop s t)
  then show ?case using drop_step_closed by blast
qed

text \<open>
  A step of the goroutine with a broker that accepts: a dial succeeds. The steps left until the
  publisher is connected again, if nothing else happens: through the detection of the loss, one
  dial and the installation.
\<close>

definition answered_step :: "pub_world \<Rightarrow> pub_world \<Rightarrow> bool" where
  "answered_step s t = (watch_step s t \<and> (\<forall>b. pw_watcher s = Dialing b \<longrightarrow> (\<exists>n. pw_watcher t = Install n)))"

definition steps_left :: "pub_world \<Rightarrow> nat" where
  "steps_left s =
     (case pw_watcher s of
        Install n \<Rightarrow> if n \<in> pw_live s then 2 else 9
      | ReadConn \<Rightarrow> if set_option (pub_conn (pw_pub s)) \<subseteq> pw_live s then 1 else 8
      | Waiting c \<Rightarrow> if c \<in> pw_live s then 0 else 7
      | Notified \<Rightarrow> 6 | Degrade \<Rightarrow> 5 | Retry b \<Rightarrow> 4 | Dialing b \<Rightarrow> 3 | Returned \<Rightarrow> 0)"

lemma answered_step_progress:
  assumes "answered_step s t" and "attended s" and "\<not> pub_closed (pw_pub s)"
  shows "steps_left t < steps_left s"
proof -
  from assms(1) have "watch_step s t" and dial: "\<And>b. pw_watcher s = Dialing b \<Longrightarrow> \<exists>n. pw_watcher t = Install n"
    by (auto simp: answered_step_def)
  then show ?thesis
  proof cases
    case (dialled b connected channel_ok exchange_ok res live')
    with dial dial_result [OF dialled(4)] show ?thesis by (auto simp: steps_left_def split: option.splits)
  qed (use assms(2,3) in \<open>auto simp: steps_left_def attended_def\<close>)
qed

lemma answered_steps:
  assumes "(answered_step ^^ n) s t" and "attended s" and "\<not> pub_closed (pw_pub s)" and "pub_inv s"
  shows "n + steps_left t \<le> steps_left s \<and> attended t \<and> \<not> pub_closed (pw_pub t) \<and> pub_inv t"
  using assms(1)
proof (induction n arbitrary: t)
  case (Suc n)
  then obtain u where u: "(answered_step ^^ n) s u" "answered_step u t" by auto
  then have "watch_step u t" by (simp add: answered_step_def)
  with Suc.IH [OF u(1)] answered_step_progress [OF u(2)] watch_step_attended watch_step_inv
  show ?case by fastforce
qed (use assms in simp)

lemma steps_left_bound: "steps_left s \<le> 9"
  by (simp add: steps_left_def split: watcher.splits)

text \<open>Unless the goroutine waits on an open connection it has a step to take.\<close>

lemma answered_step_enabled:
  assumes "attended s" and "pub_inv s" and "\<And>c. pw_watcher s = Waiting c \<Longrightarrow> c \<notin> pw_live s"
  shows "\<exists>t. answered_step s t"
proof (cases "pw_watcher s")
  case (Dialing b)
  have "watch_step s (s\<lparr>pw_live := insert 0 (pw_live s), pw_watcher := Install 0\<rparr>)"
    using watch_step.dialled [of s b "Some 0" True True "Some 0" "insert 0 (pw_live s)"] Dialing assms(2)
    by (auto simp: dial_def pub_inv_def live_ok_def)
  then show ?thesis unfolding answered_step_def by (intro exI conjI) auto
qed (use assms in \<open>auto simp: answered_step_def attended_def intro: watch_step.intros\<close>)

section \<open>Properties\<close>

definition started :: "conn \<Rightarrow> pub_world" where
  "started c = \<lparr>pw_pub = \<lparr>pub_conn = Some c, pub_channel = Some c, pub_closed = False\<rparr>, pw_live = {c},
     pw_watcher = ReadConn, pw_closer = NotClosing\<rparr>"

lemma started_reach: "pub_reach (started c)"
  unfolding started_def by (rule pub_reach.start)

text \<open>
  C12: Whatever the interleaving of the reconnecting goroutine, a concurrent \<^verbatim>\<open>Close\<close> and
  connection losses, at most one broker connection is open (a failed or half-finished dial leaks
  none), events are published on the publisher's own connection only, and none is published while
  the goroutine is reconnecting.
\<close>

theorem publisher_one_connection:
  assumes "pub_reach s"
  shows "(\<forall>c d. c \<in> pw_live s \<and> d \<in> pw_live s \<longrightarrow> c = d)
    \<and> (\<forall>msg. msg \<in> set (Publish marshal (Some (pw_pub s)) ev) \<longrightarrow> pub_conn (pw_pub s) = Some (pub_on msg))
    \<and> (degraded (pw_watcher s) \<longrightarrow> Publish marshal (Some (pw_pub s)) ev = [])"
proof -
  note inv = pub_reach_inv [OF assms]
  have "\<exists>c. pw_live s \<subseteq> {c}"
    using inv by (cases "pub_conn (pw_pub s)") (auto simp: pub_inv_def live_ok_def split: watcher.splits)
  then have "\<forall>c d. c \<in> pw_live s \<and> d \<in> pw_live s \<longrightarrow> c = d" by blast
  with inv show ?thesis by (auto simp: pub_inv_def Publish_def split: option.splits)
qed

theorem publisher_one_connection_witness:
  "pub_reach (started 2)
   \<and> map pub_on (Publish (\<lambda>_. Some ''e'') (Some (pw_pub (started 2)))
       \<lparr>ev_ShortCode = ''x'', ev_ClickedAt = Time 0 0, ev_IP = '''', ev_Referer = ''''\<rparr>) = [the (pub_conn (pw_pub (started 2)))]"
proof -
  let ?ev = "\<lparr>ev_ShortCode = ''x'', ev_ClickedAt = Time 0 0, ev_IP = '''', ev_Referer = ''''\<rparr>"
  let ?out = "Publish (\<lambda>_. Some ''e'') (Some (pw_pub (started 2))) ?ev"
  obtain msg where "?out = [msg]" by (simp add: Publish_def started_def)
  with publisher_one_connection [OF started_reach, of 2 "\<lambda>_. Some ''e''" ?ev] have "pub_conn (pw_pub (started 2)) = Some (pub_on msg)" by simp
  with \<open>?out = [msg]\<close> started_reach [of 2] show ?thesis by simp
qed

text \<open>
  The delays between reconnection attempts are 1, 2, 4, 8, 16 and from then on 32 seconds: the
  doubling stops at the first delay that is not below the 30 second cap, so the cap is exceeded.
\<close>

theorem publisher_backoff_delays:
  assumes "pub_reach s" and "pw_watcher s = Retry b \<or> pw_watcher s = Dialing b"
  shows "b \<in> {1 * Second, 2 * Second, 4 * Second, 8 * Second, 16 * Second, 32 * Second}
    \<and> next_backoff (16 * Second) = 32 * Second \<and> maxBackoff < 32 * Second"
proof -
  from pub_reach_inv [OF assms(1)] assms(2) have "is_backoff b"
    by (auto simp: pub_inv_def backoff_ok_def)
  then obtain n where "b = (next_backoff ^^ n) initialBackoff" unfolding is_backoff_def by blast
  then have b: "b = (if n \<le> 5 then 2 ^ n else 32) * Second" by (simp add: backoff_value)
  consider "n = 0" | "n = 1" | "n = 2" | "n = 3" | "n = 4" | "n = 5" | "5 < n" by linarith
  then have "b \<in> {1 * Second, 2 * Second, 4 * Second, 8 * Second, 16 * Second, 32 * Second}"
    by cases (simp_all add: b)
  then show ?thesis by (simp add: next_backoff_def maxBackoff_def Second_def)
qed

text \<open>The connection is lost and the goroutine has noticed.\<close>

definition lost :: "conn \<Rightarrow> watcher \<Rightarrow> pub_world" where
  "lost c w = \<lparr>pw_pub = \<lparr>pub_conn = Some c, pub_channel = None, pub_closed = False\<rparr>, pw_live = {},
     pw_watcher = w, pw_closer = NotClosing\<rparr>"

lemma lost_reach: "pub_reach (lost c (Retry initialBackoff))" "pub_reach (lost c (Dialing initialBackoff))"
proof -
  let ?s1 = "(started c)\<lparr>pw_watcher := Waiting c\<rparr>"
  let ?s2 = "?s1\<lparr>pw_live := {}\<rparr>"
  let ?s3 = "?s2\<lparr>pw_watcher := Notified\<rparr>"
  let ?s4 = "?s3\<lparr>pw_watcher := Degrade\<rparr>"
  have 1: "pub_reach ?s1"
    by (rule pub_reach.watch [OF started_reach watch_step.read_conn]) (simp_all add: started_def)
  have "drop_step ?s1 (?s1\<lparr>pw_live := pw_live ?s1 - {c}\<rparr>)" by (rule drop_step.drop) (simp add: started_def)
  then have 2: "pub_reach ?s2" using pub_reach.drop [OF 1] by (simp add: started_def)
  have "watch_step ?s2 ?s3" using watch_step.notified [of ?s2 c] by simp
  then have 3: "pub_reach ?s3" by (rule pub_reach.watch [OF 2])
  have "watch_step ?s3 ?s4" using watch_step.check_closed [of ?s3] by (simp add: started_def)
  then have 4: "pub_reach ?s4" by (rule pub_reach.watch [OF 3])
  have "watch_step ?s4 (lost c (Retry initialBackoff))"
    using watch_step.degrade [of ?s4] by (simp add: started_def lost_def)
  then show 5: "pub_reach (lost c (Retry initialBackoff))" by (rule pub_reach.watch [OF 4])
  have "watch_step (lost c (Retry initialBackoff)) (lost c (Dialing initialBackoff))"
    using watch_step.retry [of "lost c (Retry initialBackoff)"] by (simp add: lost_def)
  then show "pub_reach (lost c (Dialing initialBackoff))" by (rule pub_reach.watch [OF 5])
qed

theorem publisher_backoff_delays_witness:
  "pub_reach (lost 2 (Retry initialBackoff))
   \<and> initialBackoff \<in> {1 * Second, 2 * Second, 4 * Second, 8 * Second, 16 * Second, 32 * Second}"
  using lost_reach(1) [of 2] publisher_backoff_delays [OF lost_reach(1) [of 2], of initialBackoff]
  by (simp add: lost_def)

text \<open>
  C28: The publisher recovers from a lost connection: whatever has happened, as long as
  \<^verbatim>\<open>Close\<close> is not called and once the broker accepts connections again and keeps them, the
  reconnecting goroutine can take at most nine more steps; it is never stuck before the publisher
  has a channel on an open connection, on which events are sent.
\<close>

theorem publisher_recovers:
  assumes "pub_reach s" and "\<not> pub_closed (pw_pub s)" and "(answered_step ^^ n) s t"
  shows "n \<le> 9
    \<and> ((\<exists>u. answered_step t u)
       \<or> (\<exists>c \<in> pw_live t. \<forall>marshal ev body. marshal ev = Some body \<longrightarrow>
            map pub_on (Publish marshal (Some (pw_pub t)) ev) = [c]))"
proof -
  note inv = pub_reach_inv [OF assms(1)] and att = pub_reach_attended [OF assms(1,2)]
  from answered_steps [OF assms(3) att assms(2) inv]
  have t: "n + steps_left t \<le> steps_left s" "attended t" "pub_inv t" by blast+
  have "pub_channel (pw_pub t) = Some c" if "pw_watcher t = Waiting c" for c
    using t(2) that by (simp add: attended_def degraded_def)
  with answered_step_enabled [OF t(2,3)]
  have "(\<exists>u. answered_step t u) \<or> (\<exists>c \<in> pw_live t. pub_channel (pw_pub t) = Some c)" by blast
  with t(1) steps_left_bound [of s] show ?thesis by (auto simp: Publish_def)
qed

theorem publisher_recovers_witness:
  "\<exists>t. (answered_step ^^ 3) (lost 2 (Dialing initialBackoff)) t \<and> (\<nexists>u. answered_step t u)
     \<and> map pub_on (Publish (\<lambda>_. Some ''e'') (Some (pw_pub t))
          \<lparr>ev_ShortCode = ''x'', ev_ClickedAt = Time 0 0, ev_IP = '''', ev_Referer = ''''\<rparr>) = [3]"
proof -
  let ?s = "lost 2 (Dialing initialBackoff)"
  let ?s1 = "?s\<lparr>pw_live := {3}, pw_watcher := Install 3\<rparr>"
  let ?s2 = "?s1\<lparr>pw_pub := \<lparr>pub_conn = Some 3, pub_channel = Some 3, pub_closed = False\<rparr>, pw_watcher := ReadConn\<rparr>"
  let ?s3 = "?s2\<lparr>pw_watcher := Waiting 3\<rparr>"
  have "watch_step ?s ?s1"
    using watch_step.dialled [of ?s initialBackoff "Some 3" True True "Some 3" "{3}"] by (simp add: lost_def dial_def)
  moreover have "watch_step ?s1 ?s2" using watch_step.install [of ?s1 3] by (simp add: lost_def)
  moreover have "watch_step ?s2 ?s3" using watch_step.read_conn [of ?s2 3] by simp
  ultimately have "answered_step ?s ?s1" "answered_step ?s1 ?s2" "answered_step ?s2 ?s3" by (simp_all add: answered_step_def)
  then have run: "(answered_step ^^ 3) ?s ?s3" by (auto simp: numeral_3_eq_3)
  have stuck: "\<not> answered_step ?s3 u" for u by (auto simp: answered_step_def elim: watch_step.cases)
  have "\<not> pub_closed (pw_pub ?s)" by (simp add: lost_def)
  from publisher_recovers [OF lost_reach(2) this run] stuck
  have "\<exists>c \<in> pw_live ?s3. \<forall>marshal ev body. marshal ev = Some body \<longrightarrow> map pub_on (Publish marshal (Some (pw_pub ?s3)) ev) = [c]"
    by blast
  with run stuck show ?thesis by (intro exI [of _ ?s3]) auto
qed

text \<open>
  C29: When \<^verbatim>\<open>Close\<close> returns and the goroutine is not between its last test of the flag and
  the installation of a new connection, it has stopped for good: it never connects again.
\<close>

theorem Close_stops_reconnecting:
  assumes "pub_reach s" and "close_step s t" and "pw_closer t = CloseReturned"
    and "\<not> past_check (pw_watcher s)" and "watch_step\<^sup>*\<^sup>* t u"
  shows "\<not> IsConnected (Some (pw_pub u)) \<and> pw_live u = {}"
proof -
  define quietly where "quietly v = (pub_closed (pw_pub v) \<and> pub_conn (pw_pub v) = None \<and> pub_channel (pw_pub v) = None
     \<and> pw_live v = {} \<and> \<not> past_check (pw_watcher v))" for v :: pub_world
  have "quietly t"
    using assms(2)
  proof cases
    case (locked p live)
    with pub_reach_inv [OF assms(1)] assms(4) show ?thesis
      by (auto simp: quietly_def pub_inv_simps past_check_def close_locked_def Let_def
          split: option.splits if_splits watcher.splits)
  qed (use assms(3) in simp)
  with assms(5) have "quietly u"
  proof (induction rule: rtranclp_induct)
    case (step v u)
    from step(2) step(3) [OF step(4)] show ?case
      by cases (auto simp: quietly_def past_check_def)
  qed
  then show ?thesis by (simp add: quietly_def IsConnected_def)
qed

theorem Close_stops_reconnecting_witness:
  "\<exists>s t. pub_reach s \<and> close_step s t \<and> pw_closer t = CloseReturned \<and> \<not> past_check (pw_watcher s)
     \<and> \<not> IsConnected (Some (pw_pub t)) \<and> pw_live t = {}"
proof -
  let ?s = "(started 2)\<lparr>pw_pub := close_flag (pw_pub (started 2)), pw_closer := FlagSet\<rparr>"
  let ?t = "?s\<lparr>pw_pub := \<lparr>pub_conn = None, pub_channel = None, pub_closed = True\<rparr>, pw_live := {}, pw_closer := CloseReturned\<rparr>"
  have s: "pub_reach ?s"
    by (rule pub_reach.close [OF started_reach close_step.set_flag]) (simp add: started_def)
  have t: "close_step ?s ?t"
    by (rule close_step.locked) (simp_all add: started_def close_flag_def close_locked_def)
  have c: "pw_closer ?t = CloseReturned" and p: "\<not> past_check (pw_watcher ?s)"
    by (simp_all add: started_def past_check_def)
  show ?thesis
    using s t c p Close_stops_reconnecting [OF s t c p rtranclp.rtrancl_refl] by blast
qed

text \<open>
  C40: Otherwise it has not: \<^verbatim>\<open>Close\<close> can run to completion while a dial is under way; the
  goroutine then installs the new connection, and the closed publisher stays connected, its goroutine
  waiting for that connection to end.
\<close>

theorem Close_race_leaves_connection:
  "\<exists>s. pub_reach s \<and> pw_closer s = CloseReturned \<and> pub_closed (pw_pub s) \<and> IsConnected (Some (pw_pub s))
     \<and> pw_live s = {3} \<and> pw_watcher s = Waiting 3 \<and> (\<nexists>t. watch_step s t)"
proof -
  let ?s1 = "lost 2 (Dialing initialBackoff)"
  let ?s2 = "?s1\<lparr>pw_pub := close_flag (pw_pub ?s1), pw_closer := FlagSet\<rparr>"
  let ?p = "\<lparr>pub_conn = None, pub_channel = None, pub_closed = True\<rparr>"
  let ?s3 = "?s2\<lparr>pw_pub := ?p, pw_live := {}, pw_closer := CloseReturned\<rparr>"
  let ?s4 = "?s3\<lparr>pw_live := {3}, pw_watcher := Install 3\<rparr>"
  let ?s5 = "?s4\<lparr>pw_pub := ?p\<lparr>pub_conn := Some 3, pub_channel := Some 3\<rparr>, pw_watcher := ReadConn\<rparr>"
  let ?s6 = "?s5\<lparr>pw_watcher := Waiting 3\<rparr>"
  have 2: "pub_reach ?s2"
    by (rule pub_reach.close [OF lost_reach(2) close_step.set_flag]) (simp add: lost_def)
  have 3: "pub_reach ?s3"
    by (rule pub_reach.close [OF 2 close_step.locked]) (simp_all add: lost_def close_flag_def close_locked_def)
  have "watch_step ?s3 ?s4"
    using watch_step.dialled [of ?s3 initialBackoff "Some 3" True True "Some 3" "{3}"]
    by (simp add: lost_def dial_def)
  then have 4: "pub_reach ?s4" by (rule pub_reach.watch [OF 3])
  have "watch_step ?s4 ?s5" using watch_step.install [of ?s4 3] by simp
  then have 5: "pub_reach ?s5" by (rule pub_reach.watch [OF 4])
  have "watch_step ?s5 ?s6" using watch_step.read_conn [of ?s5 3] by simp
  then have 6: "pub_reach ?s6" by (rule pub_reach.watch [OF 5])
  have "\<not> watch_step ?s6 t" for t by (auto elim: watch_step.cases)
  with 6 show ?thesis by (intro exI [of _ ?s6]) (simp add: IsConnected_def)
qed

end
