(* ===== verification/Observability.thy ===== *)
theory Observability
  imports Prelude
begin

text \<open>
  \<^verbatim>\<open>internal/observability\<close>: the logger, the tracer and meter providers, and their set-up
  and shutdown. The OpenTelemetry SDK and the Prometheus exporter are third-party code: whether their
  constructors and shutdowns succeed is a parameter. The state is what they keep in the process: the
  providers that have not been shut down, and the globals of the OpenTelemetry API.
\<close>

section \<open>Definitions\<close>

subsection \<open>The logger\<close>

datatype slog_level = SlogDebug | SlogInfo

datatype slog_handler = JSONHandler slog_level bool | TextHandler slog_level bool \<comment> \<open>level, \<^verbatim>\<open>AddSource\<close>\<close>

definition NewLogger :: "string \<Rightarrow> slog_handler" where
  "NewLogger environment =
     (if environment = ''production'' then JSONHandler SlogInfo True else TextHandler SlogDebug False)"

subsection \<open>The providers\<close>

record tracer_provider =
  tp_id :: nat
  tp_ServiceName :: string
  tp_Exporter :: "string option" \<comment> \<open>the OTLP endpoint spans are sent to\<close>

record telemetry =
  tel_tracers :: "tracer_provider list"
  tel_meters :: "nat list"
  tel_next :: nat
  tel_global_tracer :: "nat option"
  tel_global_meter :: "nat option"
  tel_propagator :: "string option"

record otel_env =
  resource_New :: "string \<Rightarrow> bool"
  otlptracegrpc_New :: "string \<Rightarrow> bool"
  prometheus_New :: bool
  tp_Shutdown :: "tracer_provider \<Rightarrow> string option"
  mp_Shutdown :: "nat \<Rightarrow> string option"

text \<open>\<open>None\<close> is an error.\<close>

definition NewTracerProvider :: "otel_env \<Rightarrow> string \<Rightarrow> string \<Rightarrow> (telemetry, tracer_provider option) go" where
  "NewTracerProvider T serviceName otlpEndpoint =
     (if \<not> resource_New T serviceName then go_ret None
      else if otlpEndpoint \<noteq> '''' \<and> \<not> otlptracegrpc_New T otlpEndpoint then go_ret None
      else (\<lambda>t.
        let tp = \<lparr>tp_id = tel_next t, tp_ServiceName = serviceName,
                  tp_Exporter = (if otlpEndpoint \<noteq> '''' then Some otlpEndpoint else None)\<rparr>
        in (Ret (Some tp),
            t\<lparr>tel_tracers := tp # tel_tracers t, tel_next := tel_next t + 1,
              tel_global_tracer := Some (tp_id tp), tel_propagator := Some ''tracecontext''\<rparr>)))"

definition NewMeterProvider :: "otel_env \<Rightarrow> (telemetry, nat option) go" where
  "NewMeterProvider T =
     (if \<not> prometheus_New T then go_ret None
      else (\<lambda>t. (Ret (Some (tel_next t)),
        t\<lparr>tel_meters := tel_next t # tel_meters t, tel_next := tel_next t + 1, tel_global_meter := Some (tel_next t)\<rparr>)))"

subsection \<open>Set-up and shutdown\<close>

record obs_config =
  oc_ServiceName :: string
  oc_Environment :: string
  oc_OTLPEndpoint :: string

record observability =
  obs_Logger :: slog_handler
  obs_TracerProvider :: "tracer_provider option"
  obs_MeterProvider :: "nat option"

definition obs_Setup :: "otel_env \<Rightarrow> obs_config \<Rightarrow> (telemetry, observability option) go" where
  "obs_Setup T cfg =
     (let logger = NewLogger (oc_Environment cfg) in
      go_bind (NewTracerProvider T (oc_ServiceName cfg) (oc_OTLPEndpoint cfg)) (\<lambda>tp.
        case tp of
          None \<Rightarrow> go_ret None
        | Some tp \<Rightarrow>
            go_bind (NewMeterProvider T) (\<lambda>mp.
              case mp of
                None \<Rightarrow> go_ret None
              | Some mp \<Rightarrow> go_ret (Some
                  \<lparr>obs_Logger = logger, obs_TracerProvider = Some tp, obs_MeterProvider = Some mp\<rparr>))))"

text \<open>
  A provider that is shut down releases its resources, whether or not an error is reported. The
  result lists the messages that are logged.
\<close>

definition obs_Shutdown :: "otel_env \<Rightarrow> observability \<Rightarrow> telemetry \<Rightarrow> string list \<times> telemetry" where
  "obs_Shutdown T obs t =
     (let (log1, t1) =
        (case obs_TracerProvider obs of
           None \<Rightarrow> ([], t)
         | Some tp \<Rightarrow>
             (if tp_Shutdown T tp \<noteq> None then [''failed to shutdown tracer provider''] else [],
              t\<lparr>tel_tracers := removeAll tp (tel_tracers t)\<rparr>));
          (log2, t2) =
        (case obs_MeterProvider obs of
           None \<Rightarrow> ([], t1)
         | Some mp \<Rightarrow>
             (if mp_Shutdown T mp \<noteq> None then [''failed to shutdown metrics provider''] else [],
              t1\<lparr>tel_meters := removeAll mp (tel_meters t1)\<rparr>))
      in (''shutting down observability'' # log1 @ log2, t2))"

section \<open>What is set up and what is released\<close>

text \<open>The running providers are numbered below the next number.\<close>

definition numbered :: "telemetry \<Rightarrow> bool" where
  "numbered t = (list_all (\<lambda>tp. tp_id tp < tel_next t) (tel_tracers t) \<and> list_all (\<lambda>n. n < tel_next t) (tel_meters t))"

lemma obs_Setup_wp:
  "wp (obs_Setup T cfg)
    (\<lambda>res t'. case res of
        None \<Rightarrow> tel_meters t' = tel_meters t
          \<and> (tel_tracers t' = tel_tracers t
             \<or> \<not> prometheus_New T \<and> (\<exists>tp. tel_tracers t' = tp # tel_tracers t \<and> tel_global_tracer t' = Some (tp_id tp)))
      | Some obs \<Rightarrow> (\<exists>tp mp. obs_TracerProvider obs = Some tp \<and> obs_MeterProvider obs = Some mp
          \<and> tp_ServiceName tp = oc_ServiceName cfg
          \<and> tp_Exporter tp = (if oc_OTLPEndpoint cfg = '''' then None else Some (oc_OTLPEndpoint cfg))
          \<and> tel_tracers t' = tp # tel_tracers t \<and> tel_meters t' = mp # tel_meters t
          \<and> tel_global_tracer t' = Some (tp_id tp) \<and> tel_global_meter t' = Some mp
          \<and> tp_id tp = tel_next t \<and> mp = tel_next t + 1)) t"
  by (auto simp: obs_Setup_def NewTracerProvider_def NewMeterProvider_def wp_def go_simps Let_def split: prod.splits)

text \<open>Shutting down what was set up leaves the providers that ran before, whatever the SDK reports.\<close>

lemma obs_Shutdown_undoes:
  assumes "numbered t" and "tel_tracers t' = tp # tel_tracers t" and "tel_meters t' = mp # tel_meters t"
    and "tp_id tp = tel_next t" and "mp = tel_next t + 1"
    and "obs_TracerProvider obs = Some tp" and "obs_MeterProvider obs = Some mp"
  shows "tel_tracers (snd (obs_Shutdown T obs t')) = tel_tracers t \<and> tel_meters (snd (obs_Shutdown T obs t')) = tel_meters t"
proof -
  have "tp \<notin> set (tel_tracers t)" and "mp \<notin> set (tel_meters t)"
    using assms(1,4,5) by (auto simp: numbered_def list_all_iff)
  with assms show ?thesis by (simp add: obs_Shutdown_def Let_def)
qed

end
