(* ===== verification/Gateway.thy ===== *)
theory Gateway
  imports Config Rate_Limiter Publisher Observability "HOL-Library.AList"
begin

text \<open>
  The gateway process: the constructors of \<^verbatim>\<open>internal/infra/infra.go\<close>, the start-up in
  \<^verbatim>\<open>cmd/server/main.go\<close>, the wiring of \<^verbatim>\<open>internal/server/server.go\<close> and the
  logging and metrics middleware. Start-up runs over the resources opened so far; parsing of
  connection strings and the pings are parameters. A request passes through the chain the router
  builds: recovery, logging, metrics, rate limiting, handler.
\<close>

section \<open>Definitions\<close>

subsection \<open>Connections\<close>

record pool_config =
  pc_MaxConns :: "32 word"
  pc_MinConns :: "32 word"
  pc_MaxConnLifetime :: int
  pc_MaxConnIdleTime :: int

record redis_options =
  ro_ReadTimeout :: int
  ro_WriteTimeout :: int
  ro_PoolSize :: int

record 'x infra_env =
  pgx_ParseConfig :: "string \<Rightarrow> pool_config option"
  pgx_NewWithConfig :: "pool_config \<Rightarrow> 'x \<Rightarrow> bool \<times> 'x"
  redis_ParseURL :: "string \<Rightarrow> redis_options option"

text \<open>
  The process while it starts: the services, the open database pools and Redis clients with their
  settings, the number of the next client, the open broker connections, and the telemetry providers.
\<close>

record 'x boot =
  bt_ext :: 'x
  bt_pools :: "pool_config list"
  bt_clients :: "client \<rightharpoonup> redis_options"
  bt_next :: client
  bt_live :: "conn set"
  bt_tel :: telemetry

definition boot_call :: "('x \<Rightarrow> 'a \<times> 'x) \<Rightarrow> ('x boot, 'a) go" where
  "boot_call f = (\<lambda>s. case f (bt_ext s) of (a, x) \<Rightarrow> (Ret a, s\<lparr>bt_ext := x\<rparr>))"

definition boot_tel :: "(telemetry, 'a) go \<Rightarrow> ('x boot, 'a) go" where
  "boot_tel m = (\<lambda>s. case m (bt_tel s) of (res, t) \<Rightarrow> (res, s\<lparr>bt_tel := t\<rparr>))"

text \<open>\<open>None\<close> is an error.\<close>

definition NewPostgresPool :: "'x env \<Rightarrow> 'x infra_env \<Rightarrow> string \<Rightarrow> ('x boot, pool_config option) go" where
  "NewPostgresPool E I connString =
     (case pgx_ParseConfig I connString of
        None \<Rightarrow> go_ret None
      | Some parsed \<Rightarrow>
          let cfg = parsed\<lparr>pc_MaxConns := 10, pc_MinConns := 2, pc_MaxConnLifetime := 60 * Minute,
                      pc_MaxConnIdleTime := 30 * Minute\<rparr>
          in go_bind (boot_call (pgx_NewWithConfig I cfg)) (\<lambda>created.
            if \<not> created then go_ret None
            else
              go_then (go_modify (\<lambda>s. s\<lparr>bt_pools := cfg # bt_pools s\<rparr>))
                (go_bind (boot_call (pg_Ping E Background)) (\<lambda>err.
                  if err \<noteq> None then go_then (go_modify (\<lambda>s. s\<lparr>bt_pools := tl (bt_pools s)\<rparr>)) (go_ret None)
                  else go_ret (Some cfg)))))"

definition close_client :: "client \<Rightarrow> 'x boot \<Rightarrow> 'x boot" where
  "close_client c s = s\<lparr>bt_clients := (bt_clients s)(c := None)\<rparr>"

definition NewCacheClient :: "'x env \<Rightarrow> 'x infra_env \<Rightarrow> string \<Rightarrow> int \<Rightarrow> int \<Rightarrow> int \<Rightarrow> ('x boot, client option) go" where
  "NewCacheClient E I connString readTimeout writeTimeout poolSize =
     (case redis_ParseURL I connString of
        None \<Rightarrow> go_ret None
      | Some opt \<Rightarrow>
          let opt1 = (if 0 < readTimeout then opt\<lparr>ro_ReadTimeout := readTimeout\<rparr> else opt);
              opt2 = (if 0 < writeTimeout then opt1\<lparr>ro_WriteTimeout := writeTimeout\<rparr> else opt1);
              opt3 = (if 0 < poolSize then opt2\<lparr>ro_PoolSize := poolSize\<rparr> else opt2)
          in (\<lambda>s. let rdb = bt_next s in
            go_then (go_modify (\<lambda>s. s\<lparr>bt_clients := (bt_clients s)(rdb \<mapsto> opt3), bt_next := rdb + 1\<rparr>))
              (go_bind (boot_call (redis_Ping E Background rdb)) (\<lambda>err.
                if err \<noteq> None then go_then (go_modify (close_client rdb)) (go_ret None)
                else go_ret (Some rdb))) s))"

definition nodeConnectionString :: "string \<Rightarrow> string" where
  "nodeConnectionString node = ''redis://'' @ node @ ''/0''"

text \<open>
  The clients are a map from node to client; a node that is listed twice replaces its client. On an
  error every client in the map is closed; \<open>Inl\<close> names the node that failed.
\<close>

fun cache_rings_loop ::
  "'x env \<Rightarrow> 'x infra_env \<Rightarrow> int \<Rightarrow> int \<Rightarrow> int \<Rightarrow> string list \<Rightarrow> (string \<times> client) list
   \<Rightarrow> ('x boot, string + (string \<times> client) list) go" where
  "cache_rings_loop E I readTimeout writeTimeout poolSize [] clients = go_ret (Inr clients)"
| "cache_rings_loop E I readTimeout writeTimeout poolSize (node # nodes) clients =
     go_bind (NewCacheClient E I (nodeConnectionString node) readTimeout writeTimeout poolSize) (\<lambda>res.
       case res of
         None \<Rightarrow> go_then (go_modify (fold close_client (map snd clients))) (go_ret (Inl node))
       | Some client \<Rightarrow> cache_rings_loop E I readTimeout writeTimeout poolSize nodes (AList.update node client clients))"

definition NewCacheRings ::
  "'x env \<Rightarrow> 'x infra_env \<Rightarrow> string list \<Rightarrow> int \<Rightarrow> int \<Rightarrow> int \<Rightarrow> ('x boot, string + (string \<times> client) list) go" where
  "NewCacheRings E I cacheNodes readTimeout writeTimeout poolSize =
     cache_rings_loop E I readTimeout writeTimeout poolSize cacheNodes []"

subsection \<open>Start-up\<close>

text \<open>Closing the ring's clients, in the order in which the map is ranged over.\<close>

definition HashRing_Close :: "client list \<Rightarrow> 'x boot \<Rightarrow> 'x boot" where
  "HashRing_Close order s = fold close_client order s"

record gateway =
  gw_config :: config
  gw_obs :: observability
  gw_db :: pool_config
  gw_ring :: hash_ring
  gw_order :: "client list" \<comment> \<open>the order in which the ring's clients are pinged\<close>
  gw_rateLimiter :: "rl_client option"
  gw_publisher :: "publisher option"

datatype fatal =
    FatalObservability | FatalDatabase | FatalCache string | FatalPingDatabase | FatalPingCache
  | FatalRateLimiter | FatalPublisher

fun boot_ring_Ping :: "'x env \<Rightarrow> client list \<Rightarrow> ('x boot, redis_err option) go" where
  "boot_ring_Ping E [] = go_ret None"
| "boot_ring_Ping E (c # order) =
     go_bind (boot_call (redis_Ping E Background c))
       (\<lambda>e. case e of Some err \<Rightarrow> go_ret (Some err) | None \<Rightarrow> boot_ring_Ping E order)"

text \<open>What the broker does when the publisher dials it: the connection, the channel, the exchange.\<close>

record broker_answer =
  ba_connected :: "conn option"
  ba_channel_ok :: bool
  ba_exchange_ok :: bool

definition boot_NewPublisher :: "string \<Rightarrow> broker_answer \<Rightarrow> ('x boot, unit + publisher option) go" where
  "boot_NewPublisher amqpURL B = (\<lambda>s.
     case NewPublisher amqpURL (ba_connected B) (ba_channel_ok B) (ba_exchange_ok B) (bt_live s) of
       (res, live) \<Rightarrow> (Ret res, s\<lparr>bt_live := live\<rparr>))"

text \<open>
  The optional parts of start-up: a rate limiter when its address is configured, a publisher when the
  broker's is.
\<close>

definition start_rate_limiter :: "(string \<Rightarrow> bool) \<Rightarrow> config \<Rightarrow> (fatal + rl_client option)" where
  "start_rate_limiter dialable cfg =
     (if rlcfg_Enabled (RateLimiter cfg)
      then (case NewClient dialable (rlcfg_Addr (RateLimiter cfg)) (rlcfg_Timeout (RateLimiter cfg)) of
              None \<Rightarrow> Inl FatalRateLimiter
            | Some c \<Rightarrow> Inr (Some c))
      else Inr None)"

definition start_publisher :: "broker_answer \<Rightarrow> config \<Rightarrow> ('x boot, fatal + publisher option) go" where
  "start_publisher B cfg =
     (if an_Enabled (Analytics cfg)
      then go_bind (boot_NewPublisher (an_AMQPURL (Analytics cfg)) B) (\<lambda>res.
        go_ret (case res of Inl _ \<Rightarrow> Inl FatalPublisher | Inr pub \<Rightarrow> Inr pub))
      else go_ret (Inr None))"

text \<open>
  \<^verbatim>\<open>main\<close> up to the server, in two parts: from the cache clients on, and all of it.
  \<open>order\<close> is the order in which the map of clients is ranged over. The environment's name is a
  constant of the source.
\<close>

definition main_obs_config :: "environ \<Rightarrow> obs_config" where
  "main_obs_config env =
     \<lparr>oc_ServiceName = ''gateway'', oc_Environment = ''development'',
      oc_OTLPEndpoint = Getenv env ''OTEL_EXPORTER_OTLP_ENDPOINT''\<rparr>"

definition start_with_clients ::
  "'x env \<Rightarrow> ((string \<times> client) list \<Rightarrow> (string \<times> client) list) \<Rightarrow> (string \<Rightarrow> bool) \<Rightarrow> broker_answer
   \<Rightarrow> config \<Rightarrow> observability \<Rightarrow> pool_config \<Rightarrow> (string \<times> client) list \<Rightarrow> ('x boot, fatal + gateway) go" where
  "start_with_clients E order dialable B cfg obs db clients =
     (let cacheProvider = NewHashRing (order clients) 150 in
      go_bind (boot_call (pg_Ping E Background)) (\<lambda>dbErr.
      if dbErr \<noteq> None then go_ret (Inl FatalPingDatabase)
      else
        go_bind (boot_ring_Ping E (map snd (order clients))) (\<lambda>cacheErr.
        if cacheErr \<noteq> None then go_ret (Inl FatalPingCache)
        else
          case start_rate_limiter dialable cfg of
            Inl e \<Rightarrow> go_ret (Inl e)
          | Inr rateLimiter \<Rightarrow>
              go_bind (start_publisher B cfg) (\<lambda>pub.
                case pub of
                  Inl e \<Rightarrow> go_ret (Inl e)
                | Inr pub \<Rightarrow> go_ret (Inr
                    \<lparr>gw_config = cfg, gw_obs = obs, gw_db = db, gw_ring = cacheProvider, gw_order = map snd (order clients),
                     gw_rateLimiter = rateLimiter, gw_publisher = pub\<rparr>)))))"

definition gateway_start ::
  "'x env \<Rightarrow> 'x infra_env \<Rightarrow> ((string \<times> client) list \<Rightarrow> (string \<times> client) list) \<Rightarrow> (string \<Rightarrow> bool) \<Rightarrow> broker_answer
   \<Rightarrow> environ \<Rightarrow> otel_env \<Rightarrow> ('x boot, fatal + gateway) go" where
  "gateway_start E I order dialable B env T =
     (let cfg = Load env in
      go_bind (boot_tel (obs_Setup T (main_obs_config env))) (\<lambda>obs.
      case obs of
        None \<Rightarrow> go_ret (Inl FatalObservability)
      | Some obs \<Rightarrow>
        go_bind (NewPostgresPool E I (DatabaseConfig_ConnectionString (Database cfg))) (\<lambda>opened.
        case opened of
          None \<Rightarrow> go_ret (Inl FatalDatabase)
        | Some db \<Rightarrow>
          go_bind (NewCacheRings E I (cc_Nodes (Cache cfg)) (cc_ReadTimeout (Cache cfg)) (cc_WriteTimeout (Cache cfg))
                     (cc_PoolSize (Cache cfg))) (\<lambda>res.
          case res of
            Inl node \<Rightarrow> go_ret (Inl (FatalCache node))
          | Inr clients \<Rightarrow> start_with_clients E order dialable B cfg obs db clients))))"

text \<open>
  The end of \<^verbatim>\<open>main\<close> after a signal: a server that does not shut down in time ends the
  process at once; otherwise the deferred calls run in reverse order.
\<close>

definition gateway_stop :: "otel_env \<Rightarrow> bool \<Rightarrow> gateway \<Rightarrow> 'x boot \<Rightarrow> bool \<times> gateway \<times> 'x boot" where
  "gateway_stop T shutdown_ok g s =
     (if \<not> shutdown_ok then (False, g, s)
      else
        case Close (gw_publisher g, bt_live s) of (pub, live) \<Rightarrow>
          let s1 = s\<lparr>bt_live := live\<rparr>;
              limiter = map_option rl_Close (gw_rateLimiter g);
              s2 = HashRing_Close (gw_order g) s1;
              s3 = s2\<lparr>bt_pools := remove1 (gw_db g) (bt_pools s2)\<rparr>;
              s4 = s3\<lparr>bt_tel := snd (obs_Shutdown T (gw_obs g) (bt_tel s3))\<rparr>
          in (True, g\<lparr>gw_publisher := pub, gw_rateLimiter := limiter\<rparr>, s4))"

subsection \<open>The router\<close>

text \<open>The repository and the handler that \<^verbatim>\<open>NewRouter\<close> builds from the parts.\<close>

definition router_repo :: "'x env \<Rightarrow> gateway \<Rightarrow> 'x cached_repository" where
  "router_repo E g =
     NewCachedURLRepository (URLRepository E) (Some (ring_provider (gw_ring g))) (cc_TTL (Cache (gw_config g)))
       [Some (router_cb_settings (Cache (gw_config g)))]"

definition router_handler :: "'x env \<Rightarrow> 'x rl_env \<Rightarrow> gateway \<Rightarrow> ('x world, bool) go \<Rightarrow> 'x handler" where
  "router_handler E L g amqp_connected =
     gateway_handler E (router_repo E g) (app_BaseURL (App (gw_config g))) (app_ShortCodeLen (App (gw_config g)))
       (app_ShortCodeRetries (App (gw_config g)))
       (\<lambda>ctx. go_bind (call (pg_Ping E ctx)) (\<lambda>err. go_ret (err \<noteq> None)))
       (\<lambda>ctx. go_bind (ring_Ping E ctx (gw_order g)) (\<lambda>err. go_ret (err \<noteq> None)))
       (map_option (\<lambda>_. amqp_connected) (gw_publisher g))
       (map_option (\<lambda>_. rl_CBState L) (gw_rateLimiter g))"

text \<open>A request as the router sees it, and what serving it produces besides the response.\<close>

record http_request =
  hq_method :: string
  hq_path :: string
  hq_request :: request

record access_log =
  al_level :: log_level
  al_method :: string
  al_path :: string
  al_status :: nat
  al_ip :: string

record served =
  sv_headers :: "(string \<times> string) list"
  sv_response :: response
  sv_points :: "(string \<times> string \<times> string) list" \<comment> \<open>method, route and status of the request counter\<close>
  sv_logs :: "access_log list"

text \<open>The pattern of a route, as \<^verbatim>\<open>c.FullPath\<close> reports it; empty without a match.\<close>

definition FullPath :: "(endpoint \<times> string option) option \<Rightarrow> string" where
  "FullPath found =
     (case found of
        None \<Rightarrow> ''''
      | Some (ep, _) \<Rightarrow>
          (case find (\<lambda>(m, pat, e). e = ep) router_routes of
             None \<Rightarrow> ''''
           | Some (m, pat, e) \<Rightarrow> concat (map (\<lambda>s. case s of Lit l \<Rightarrow> ''/'' @ l | CodeParam \<Rightarrow> ''/:code'') pat)))"

type_synonym 'x chain = "http_request \<Rightarrow> ('x world, served) go"

text \<open>Both middlewares run after the rest of the chain; neither does if the chain panics.\<close>

definition Metrics :: "string \<Rightarrow> 'x chain \<Rightarrow> 'x chain" where
  "Metrics route next_chain q =
     go_bind (next_chain q) (\<lambda>sv.
       go_ret (sv\<lparr>sv_points := sv_points sv @ [(hq_method q, route, Itoa (int (rsp_status (sv_response sv))))]\<rparr>))"

definition Logging :: "'x chain \<Rightarrow> 'x chain" where
  "Logging next_chain q =
     go_bind (next_chain q) (\<lambda>sv.
       let status = rsp_status (sv_response sv) in
       go_ret (sv\<lparr>sv_logs := sv_logs sv @
         [\<lparr>al_level = request_log_level status, al_method = hq_method q, al_path = hq_path q, al_status = status,
           al_ip = rq_ClientIP (hq_request q)\<rparr>]\<rparr>))"

text \<open>
  What a route leads to. The page of the metrics endpoint and of an unknown path come from libraries;
  their bodies are left out.
\<close>

definition endpoint_handler :: "'x env \<Rightarrow> 'x handler \<Rightarrow> (endpoint \<times> string option) option \<Rightarrow> request \<Rightarrow> ('x world, response) go" where
  "endpoint_handler E h found c =
     (case found of
        None \<Rightarrow> go_ret \<lparr>rsp_status = 404, rsp_body = NoBody\<rparr>
      | Some (ep, code) \<Rightarrow>
          let c' = c\<lparr>rq_code := (case code of None \<Rightarrow> '''' | Some s \<Rightarrow> s)\<rparr> in
          (case ep of
             MetricsEndpoint \<Rightarrow> go_ret \<lparr>rsp_status = 200, rsp_body = NoBody\<rparr>
           | HealthCheck \<Rightarrow> healthCheck h c'
           | CreateShortURLEndpoint \<Rightarrow> createShortURL h c'
           | GetURLEndpoint \<Rightarrow> getURL h c'
           | DeleteURLEndpoint \<Rightarrow> deleteURL h c'
           | RedirectEndpoint \<Rightarrow> redirect E h c'))"

definition plain :: "(string \<times> string) list \<Rightarrow> response \<Rightarrow> served" where
  "plain hdrs resp = \<lparr>sv_headers = hdrs, sv_response = resp, sv_points = [], sv_logs = []\<rparr>"

definition limited :: "'x rl_env \<Rightarrow> rl_client option \<Rightarrow> (request \<Rightarrow> ('x world, response) go) \<Rightarrow> 'x chain" where
  "limited L limiter handle q =
     (case limiter of
        None \<Rightarrow> go_bind (handle (hq_request q)) (\<lambda>resp. go_ret (plain [] resp))
      | Some client \<Rightarrow> go_bind (RateLimit L client handle (hq_request q)) (\<lambda>(hdrs, resp). go_ret (plain hdrs resp)))"

datatype reply = Served served | Recovered nat

text \<open>
  The router: the metrics endpoint is registered before any middleware is in use and has none of it;
  a panic in the chain becomes a 500 of the recovery middleware.
\<close>

definition serve :: "'x env \<Rightarrow> 'x rl_env \<Rightarrow> gateway \<Rightarrow> ('x world, bool) go \<Rightarrow> http_request \<Rightarrow> ('x world, reply) go" where
  "serve E L g amqp_connected q =
     (let h = router_handler E L g amqp_connected;
          found = dispatch (hq_method q) (Split (tl (hq_path q)) CHR ''/'');
          handle = endpoint_handler E h found;
          chain = (if map_option fst found = Some MetricsEndpoint
                   then (\<lambda>q. go_bind (handle (hq_request q)) (\<lambda>resp. go_ret (plain [] resp)))
                   else Logging (Metrics (FullPath found) (limited L (gw_rateLimiter g) handle)))
      in go_try (chain q) (\<lambda>sv. go_ret (Served sv)) (\<lambda>msg. go_ret (Recovered 500)))"

record http_server =
  hs_Addr :: string
  hs_ReadTimeout :: int
  hs_WriteTimeout :: int
  hs_IdleTimeout :: int

definition NewServer :: "config \<Rightarrow> http_server" where
  "NewServer cfg =
     \<lparr>hs_Addr = '':'' @ srv_Port (Server cfg), hs_ReadTimeout = 10 * Second, hs_WriteTimeout = 10 * Second,
      hs_IdleTimeout = 60 * Second\<rparr>"

section \<open>Connections\<close>

definition unused_from_next :: "'x boot \<Rightarrow> bool" where
  "unused_from_next s = (\<forall>c \<ge> bt_next s. bt_clients s c = None)"

text \<open>The positive settings override those of the connection string.\<close>

definition configured :: "int \<Rightarrow> int \<Rightarrow> int \<Rightarrow> redis_options \<Rightarrow> bool" where
  "configured readTimeout writeTimeout poolSize opt =
     ((0 < readTimeout \<longrightarrow> ro_ReadTimeout opt = readTimeout) \<and> (0 < writeTimeout \<longrightarrow> ro_WriteTimeout opt = writeTimeout)
      \<and> (0 < poolSize \<longrightarrow> ro_PoolSize opt = poolSize))"

lemma wp_boot_call [wp_simps]:
  "wp (boot_call f) Q s = (case f (bt_ext s) of (a, x) \<Rightarrow> Q a (s\<lparr>bt_ext := x\<rparr>))"
  by (simp add: wp_def boot_call_def split: prod.splits)

lemma wp_boot_tel [wp_simps]: "wp (boot_tel m) Q s = wp m (\<lambda>x t. Q x (s\<lparr>bt_tel := t\<rparr>)) (bt_tel s)"
  by (auto simp: wp_def boot_tel_def split: prod.splits outcome.splits)

lemma NewCacheClient_wp:
  assumes "unused_from_next s"
  shows "wp (NewCacheClient E I connString rt wt ps)
    (\<lambda>res s'. unused_from_next s' \<and> bt_next s \<le> bt_next s' \<and> (case res of
        None \<Rightarrow> bt_clients s' = bt_clients s
      | Some c \<Rightarrow> bt_next s \<le> c \<and> (\<exists>opt. configured rt wt ps opt \<and> bt_clients s' = (bt_clients s)(c \<mapsto> opt)))) s"
proof (cases "redis_ParseURL I connString")
  case None
  with assms show ?thesis by (simp add: NewCacheClient_def wp_simps)
next
  case (Some opt)
  define opt3 where "opt3 = (let opt1 = (if 0 < rt then opt\<lparr>ro_ReadTimeout := rt\<rparr> else opt);
     opt2 = (if 0 < wt then opt1\<lparr>ro_WriteTimeout := wt\<rparr> else opt1)
     in if 0 < ps then opt2\<lparr>ro_PoolSize := ps\<rparr> else opt2)"
  have conf: "configured rt wt ps opt3" by (simp add: configured_def opt3_def Let_def)
  have body: "NewCacheClient E I connString rt wt ps s =
    go_then (go_modify (\<lambda>s. s\<lparr>bt_clients := (bt_clients s)(bt_next s \<mapsto> opt3), bt_next := bt_next s + 1\<rparr>))
      (go_bind (boot_call (redis_Ping E Background (bt_next s))) (\<lambda>err.
        if err \<noteq> None then go_then (go_modify (close_client (bt_next s))) (go_ret None) else go_ret (Some (bt_next s)))) s"
    by (simp add: NewCacheClient_def Some opt3_def Let_def go_simps)
  obtain err x where ping: "redis_Ping E Background (bt_next s) (bt_ext s) = (err, x)" by force
  have free: "bt_clients s (bt_next s) = None" using assms by (simp add: unused_from_next_def)
  show ?thesis
    unfolding wp_def body
    using conf free assms ping
    by (cases err) (auto simp: go_simps boot_call_def close_client_def unused_from_next_def fun_upd_idem)
qed

lemma close_clients: "bt_clients (fold close_client cs s) = (\<lambda>c. if c \<in> set cs then None else bt_clients s c)"
  by (induction cs arbitrary: s) (auto simp: close_client_def fun_eq_iff)

text \<open>The clients collected so far are open and configured.\<close>

definition all_open :: "int \<Rightarrow> int \<Rightarrow> int \<Rightarrow> (string \<times> client) list \<Rightarrow> 'x boot \<Rightarrow> bool" where
  "all_open rt wt ps clients s =
     list_all (\<lambda>(node, c). \<exists>opt. bt_clients s c = Some opt \<and> configured rt wt ps opt) clients"

lemma set_update: "p \<in> set (AList.update k v al) \<Longrightarrow> p = (k, v) \<or> p \<in> set al"
  by (induction al) (auto split: if_splits)

lemma keys_update: "fst ` set (AList.update k v al) = insert k (fst ` set al)"
  by (simp add: dom_update)

lemma all_open_update:
  assumes "all_open rt wt ps clients s" and "configured rt wt ps opt" and "bt_clients s' = (bt_clients s)(c \<mapsto> opt)"
  shows "all_open rt wt ps (AList.update node c clients) s'"
  using assms unfolding all_open_def list_all_iff by (auto dest!: set_update)

lemma cache_rings_loop_wp:
  assumes "unused_from_next s" and "all_open rt wt ps clients s" and "distinct (map fst clients)"
  shows "wp (cache_rings_loop E I rt wt ps nodes clients)
    (\<lambda>res s'. case res of
        Inr clients' \<Rightarrow> fst ` set clients' = fst ` set clients \<union> set nodes \<and> distinct (map fst clients')
          \<and> all_open rt wt ps clients' s'
      | Inl node \<Rightarrow> node \<in> set nodes) s"
  using assms
proof (induction nodes arbitrary: clients s)
  case Nil
  then show ?case by (simp add: wp_simps)
next
  case (Cons node nodes)
  show ?case
    unfolding cache_rings_loop.simps wp_bind
  proof (rule wp_mono [OF NewCacheClient_wp [OF Cons.prems(1)]], goal_cases)
    case (1 res s1)
    show ?case
    proof (cases res)
      case None
      then show ?thesis by (simp add: wp_simps)
    next
      case (Some c)
      with 1 have "all_open rt wt ps (AList.update node c clients) s1"
        using all_open_update [OF Cons.prems(2)] by auto
      then have "wp (cache_rings_loop E I rt wt ps nodes (AList.update node c clients))
        (\<lambda>res s'. case res of
            Inr clients' \<Rightarrow> fst ` set clients' = fst ` set (AList.update node c clients) \<union> set nodes
              \<and> distinct (map fst clients') \<and> all_open rt wt ps clients' s'
          | Inl node \<Rightarrow> node \<in> set nodes) s1"
        using 1 Cons.prems(3) by (intro Cons.IH) (simp_all add: distinct_update)
      with Some show ?thesis by (simp only: option.case) (erule wp_mono, simp add: keys_update split: sum.splits)
    qed
  qed
qed

text \<open>The clients opened by the loop are exactly those collected, as long as no node is listed twice.\<close>

definition opened_over ::
  "(client \<rightharpoonup> redis_options) \<Rightarrow> string + (string \<times> client) list \<Rightarrow> (client \<rightharpoonup> redis_options) \<Rightarrow> bool" where
  "opened_over M res M' =
     (case res of
        Inl node \<Rightarrow> M' = M
      | Inr clients \<Rightarrow> (\<forall>c. if c \<in> snd ` set clients then M c = None else M' c = M c))"

lemma cache_rings_loop_closes:
  assumes "unused_from_next s" and "distinct (map fst clients @ nodes)"
    and "\<And>c. c \<notin> snd ` set clients \<Longrightarrow> bt_clients s c = M c" and "\<And>c. c \<in> snd ` set clients \<Longrightarrow> M c = None"
    and "\<And>c. bt_next s \<le> c \<Longrightarrow> M c = None"
  shows "wp (cache_rings_loop E I rt wt ps nodes clients) (\<lambda>res s'. opened_over M res (bt_clients s')) s"
  using assms
proof (induction nodes arbitrary: clients s)
  case Nil
  then show ?case by (simp add: wp_simps opened_over_def)
next
  case (Cons node nodes)
  have new: "AList.update node c clients = clients @ [(node, c)]" for c
    using Cons.prems(2) by (induction clients) auto
  show ?case
    unfolding cache_rings_loop.simps wp_bind
  proof (rule wp_mono [OF NewCacheClient_wp [OF Cons.prems(1)]], goal_cases)
    case (1 res s1)
    show ?case
    proof (cases res)
      case None
      with 1 Cons.prems(3,4) show ?thesis by (auto simp: wp_simps close_clients fun_eq_iff opened_over_def)
    next
      case (Some c)
      with 1 Cons.prems have "wp (cache_rings_loop E I rt wt ps nodes (clients @ [(node, c)])) (\<lambda>res s'. opened_over M res (bt_clients s')) s1"
        by (intro Cons.IH) auto
      with Some new show ?thesis by simp
    qed
  qed
qed

section \<open>A started gateway\<close>

lemma NewPostgresPool_wp:
  "wp (NewPostgresPool E I connString)
    (\<lambda>res s'. bt_clients s' = bt_clients s \<and> bt_next s' = bt_next s \<and> bt_live s' = bt_live s \<and> bt_tel s' = bt_tel s
       \<and> bt_pools s' = (case res of None \<Rightarrow> bt_pools s | Some cfg \<Rightarrow> cfg # bt_pools s)) s"
  by (auto simp: NewPostgresPool_def wp_simps Let_def split: option.splits prod.splits)

lemma boot_ring_Ping_wp: "wp (boot_ring_Ping E cs) (\<lambda>res s'. True) s"
  by (induction cs arbitrary: s) (auto simp: wp_simps split: option.splits prod.splits)

lemma start_publisher_wp: "wp (start_publisher B cfg) (\<lambda>res s'. True) s"
  by (auto simp: start_publisher_def boot_NewPublisher_def wp_def go_simps split: prod.splits)

text \<open>What a gateway is made of after a successful start.\<close>

definition built_from :: "environ \<Rightarrow> ((string \<times> client) list \<Rightarrow> (string \<times> client) list) \<Rightarrow> gateway \<Rightarrow> bool" where
  "built_from env order g =
     (gw_config g = Load env
      \<and> (\<exists>clients. gw_ring g = NewHashRing (order clients) 150 \<and> fst ` set clients = set (cc_Nodes (Cache (Load env))))
      \<and> (\<not> rlcfg_Enabled (RateLimiter (Load env)) \<longrightarrow> gw_rateLimiter g = None))"

lemma start_with_clients_wp:
  assumes "fst ` set clients = set (cc_Nodes (Cache (Load env)))"
  shows "wp (start_with_clients E order dialable B (Load env) obs db clients)
    (\<lambda>res s'. case res of Inr g \<Rightarrow> built_from env order g | Inl _ \<Rightarrow> True) s"
proof -
  have "wp (start_publisher B (Load env)) (\<lambda>pub. wp (case pub of Inl e \<Rightarrow> go_ret (Inl e)
       | Inr pub \<Rightarrow> go_ret (Inr \<lparr>gw_config = Load env, gw_obs = obs, gw_db = db, gw_ring = NewHashRing (order clients) 150,
           gw_order = map snd (order clients), gw_rateLimiter = rateLimiter, gw_publisher = pub\<rparr>))
      (\<lambda>res s'. case res of Inr g \<Rightarrow> built_from env order g | Inl _ \<Rightarrow> True)) s1"
    if "start_rate_limiter dialable (Load env) = Inr rateLimiter" for rateLimiter s1
    using that assms
    by (intro wp_mono [OF start_publisher_wp])
       (auto simp: wp_simps built_from_def start_rate_limiter_def split: sum.splits if_splits)
  then have "wp (case start_rate_limiter dialable (Load env) of Inl e \<Rightarrow> go_ret (Inl e)
      | Inr rateLimiter \<Rightarrow> go_bind (start_publisher B (Load env)) (\<lambda>pub. case pub of Inl e \<Rightarrow> go_ret (Inl e)
       | Inr pub \<Rightarrow> go_ret (Inr \<lparr>gw_config = Load env, gw_obs = obs, gw_db = db, gw_ring = NewHashRing (order clients) 150,
           gw_order = map snd (order clients), gw_rateLimiter = rateLimiter, gw_publisher = pub\<rparr>)))
      (\<lambda>res s'. case res of Inr g \<Rightarrow> built_from env order g | Inl _ \<Rightarrow> True) s1" for s1
    by (auto simp: wp_simps split: sum.split)
  then show ?thesis
    by (auto simp: start_with_clients_def Let_def wp_simps intro!: wp_mono [OF boot_ring_Ping_wp] split: prod.splits)
qed

lemma gateway_start_wp:
  assumes "unused_from_next s"
  shows "wp (gateway_start E I order dialable B env T)
    (\<lambda>res s'. case res of Inr g \<Rightarrow> built_from env order g | Inl _ \<Rightarrow> True) s"
proof -
  have rings: "wp (NewCacheRings E I nodes rt wt ps) (\<lambda>res s'. case res of
      Inr clients \<Rightarrow> fst ` set clients = set nodes | Inl node \<Rightarrow> True) s1" if "unused_from_next s1" for nodes rt wt ps s1
    unfolding NewCacheRings_def
    by (rule wp_mono [OF cache_rings_loop_wp [OF that]]) (auto simp: all_open_def split: sum.splits)
  show ?thesis
    unfolding gateway_start_def Let_def
    by (auto simp: wp_simps intro!: wp_mono [OF obs_Setup_wp] wp_mono [OF NewPostgresPool_wp] wp_mono [OF rings] start_with_clients_wp
      simp: assms [unfolded unused_from_next_def] unused_from_next_def split: sum.splits option.splits)
qed

lemma gateway_start_built:
  assumes "gateway_start E I order dialable B env T s = (Ret (Inr g), s')" and "unused_from_next s"
  shows "built_from env order g"
  using wp_run [OF gateway_start_wp [OF assms(2)] assms(1)] by simp

lemma started_clients_total:
  assumes "built_from env order g" and "\<And>cs. set (order cs) = set cs" and "cc_Nodes (Cache (Load env)) \<noteq> []"
  shows "clients_total (router_repo E g)"
proof -
  obtain clients where c: "gw_ring g = NewHashRing (order clients) 150" "fst ` set clients = set (cc_Nodes (Cache (Load env)))"
    using assms(1) by (auto simp: built_from_def)
  have "order clients \<noteq> []" using assms(2) [of clients] assms(3) c(2) by (metis image_is_empty set_empty)
  moreover have "'''' \<notin> fst ` set (order clients)"
    using assms(2) c(2) getCacheNodes_nonempty_names by (simp add: Load_def Let_def)
  ultimately show ?thesis
    by (intro ring_clients_total [of "gw_ring g"])
       (simp_all add: c(1) ring_reach.new vnodes_NewHashRing ring_clients_NewHashRing router_repo_def NewCachedURLRepository_def Let_def)
qed

section \<open>What a started gateway holds\<close>

lemma NewCacheClient_frame:
  "wp (NewCacheClient E I connString rt wt ps) (\<lambda>res s'. bt_pools s' = bt_pools s \<and> bt_live s' = bt_live s \<and> bt_tel s' = bt_tel s) s"
  by (auto simp: NewCacheClient_def wp_def go_simps boot_call_def close_client_def Let_def split: option.splits prod.splits)

lemma close_clients_frame:
  "bt_pools (fold close_client cs s) = bt_pools s \<and> bt_live (fold close_client cs s) = bt_live s
   \<and> bt_tel (fold close_client cs s) = bt_tel s"
  by (induction cs arbitrary: s) (simp_all add: close_client_def)

lemma cache_rings_loop_frame:
  "wp (cache_rings_loop E I rt wt ps nodes clients) (\<lambda>res s'. bt_pools s' = bt_pools s \<and> bt_live s' = bt_live s \<and> bt_tel s' = bt_tel s) s"
proof (induction nodes arbitrary: clients s)
  case Nil
  then show ?case by (simp add: wp_simps)
next
  case (Cons node nodes)
  show ?case
    unfolding cache_rings_loop.simps wp_bind
    by (intro wp_mono [OF NewCacheClient_frame])
       (auto simp: wp_simps close_clients_frame intro!: wp_mono [OF Cons] split: option.splits)
qed

definition publisher_holds :: "publisher option \<Rightarrow> conn set \<Rightarrow> conn set \<Rightarrow> bool" where
  "publisher_holds pub live live' =
     (case pub of
        None \<Rightarrow> live' = live
      | Some p \<Rightarrow> (\<exists>n. pub_conn p = Some n \<and> n \<notin> live \<and> live' = insert n live))"

text \<open>The gateway's telemetry providers run besides those of before.\<close>

definition obs_holds :: "observability \<Rightarrow> telemetry \<Rightarrow> telemetry \<Rightarrow> bool" where
  "obs_holds obs t t' =
     (\<exists>tp mp. obs_TracerProvider obs = Some tp \<and> obs_MeterProvider obs = Some mp
        \<and> tel_tracers t' = tp # tel_tracers t \<and> tel_meters t' = mp # tel_meters t
        \<and> tp_id tp = tel_next t \<and> mp = tel_next t + 1)"

definition holds :: "'x boot \<Rightarrow> gateway \<Rightarrow> 'x boot \<Rightarrow> bool" where
  "holds s g s' =
     (bt_pools s' = gw_db g # bt_pools s
      \<and> (\<forall>c. if c \<in> set (gw_order g) then bt_clients s c = None else bt_clients s' c = bt_clients s c)
      \<and> publisher_holds (gw_publisher g) (bt_live s) (bt_live s')
      \<and> obs_holds (gw_obs g) (bt_tel s) (bt_tel s'))"

lemma start_publisher_holds:
  assumes "\<And>n. ba_connected B = Some n \<Longrightarrow> n \<notin> bt_live s"
  shows "wp (start_publisher B cfg)
    (\<lambda>res s'. (\<exists>live. s' = s\<lparr>bt_live := live\<rparr>) \<and> (\<forall>pub. res = Inr pub \<longrightarrow> publisher_holds pub (bt_live s) (bt_live s'))) s"
  using assms
  by (auto simp: start_publisher_def boot_NewPublisher_def NewPublisher_def dial_def publisher_holds_def Let_def wp_def go_simps
      intro: exI [of _ "bt_live s"] split: prod.splits option.splits if_splits)

lemma boot_ring_Ping_frame: "wp (boot_ring_Ping E cs) (\<lambda>res s'. \<exists>x. s' = s\<lparr>bt_ext := x\<rparr>) s"
proof (induction cs arbitrary: s)
  case Nil
  then show ?case by (auto simp: wp_simps intro: exI [of _ "bt_ext s"])
next
  case (Cons c cs)
  show ?case by (auto simp: wp_simps intro!: wp_mono [OF Cons] split: option.splits prod.splits)
qed

lemma start_with_clients_holds:
  assumes "bt_pools v = db # bt_pools s" and "opened_over (bt_clients s) (Inr clients) (bt_clients v)"
    and "bt_live v = bt_live s" and "obs_holds obs (bt_tel s) (bt_tel v)" and "\<And>n. ba_connected B = Some n \<Longrightarrow> n \<notin> bt_live s" and "\<And>cs. set (order cs) = set cs"
  shows "wp (start_with_clients E order dialable B cfg obs db clients) (\<lambda>res s'. \<forall>g. res = Inr g \<longrightarrow> holds s g s') v"
proof -
  have "wp (start_publisher B cfg) (\<lambda>pub. wp (case pub of Inl e \<Rightarrow> go_ret (Inl e)
       | Inr pub \<Rightarrow> go_ret (Inr \<lparr>gw_config = cfg, gw_obs = obs, gw_db = db, gw_ring = NewHashRing (order clients) 150,
           gw_order = map snd (order clients), gw_rateLimiter = rateLimiter, gw_publisher = pub\<rparr>))
      (\<lambda>res s'. \<forall>g. res = Inr g \<longrightarrow> holds s g s')) (v\<lparr>bt_ext := x\<rparr>)" for rateLimiter x
    by (rule wp_mono [OF start_publisher_holds])
       (use assms in \<open>auto simp: wp_simps holds_def opened_over_def image_image split: sum.splits\<close>)
  then have "wp (case start_rate_limiter dialable cfg of Inl e \<Rightarrow> go_ret (Inl e)
      | Inr rateLimiter \<Rightarrow> go_bind (start_publisher B cfg) (\<lambda>pub. case pub of Inl e \<Rightarrow> go_ret (Inl e)
       | Inr pub \<Rightarrow> go_ret (Inr \<lparr>gw_config = cfg, gw_obs = obs, gw_db = db, gw_ring = NewHashRing (order clients) 150,
           gw_order = map snd (order clients), gw_rateLimiter = rateLimiter, gw_publisher = pub\<rparr>)))
      (\<lambda>res s'. \<forall>g. res = Inr g \<longrightarrow> holds s g s') (v\<lparr>bt_ext := x\<rparr>)" for x
    by (auto simp: wp_simps split: sum.split)
  then show ?thesis
    by (auto simp: start_with_clients_def Let_def wp_simps intro!: wp_mono [OF boot_ring_Ping_frame] split: prod.splits)
qed

lemma gateway_start_holds:
  assumes "unused_from_next s" and "distinct (cc_Nodes (Cache (Load env)))"
    and "\<And>n. ba_connected B = Some n \<Longrightarrow> n \<notin> bt_live s" and "\<And>cs. set (order cs) = set cs"
  shows "wp (gateway_start E I order dialable B env T) (\<lambda>res s'. \<forall>g. res = Inr g \<longrightarrow> holds s g s') s"
proof -
  have rings: "wp (NewCacheRings E I (cc_Nodes (Cache (Load env))) rt wt ps)
      (\<lambda>res s'. opened_over (bt_clients s) res (bt_clients s') \<and> bt_pools s' = bt_pools v \<and> bt_live s' = bt_live v \<and> bt_tel s' = bt_tel v) v"
    if "bt_clients v = bt_clients s" "bt_next v = bt_next s" for rt wt ps v
    unfolding NewCacheRings_def
    by (rule wp_conj [OF cache_rings_loop_closes cache_rings_loop_frame])
       (use assms(1,2) that in \<open>auto simp: unused_from_next_def\<close>)
  show ?thesis
    unfolding gateway_start_def Let_def
    by (auto simp: wp_simps obs_holds_def intro!: wp_mono [OF obs_Setup_wp] wp_mono [OF NewPostgresPool_wp] wp_mono [OF rings]
      start_with_clients_holds assms(3,4) split: sum.splits option.splits)
qed

lemma gateway_stop_releases:
  assumes "holds s g s1" and "gateway_stop T True g s1 = (ok, g', s')" and "numbered (bt_tel s)"
  shows "ok \<and> bt_clients s' = bt_clients s \<and> bt_pools s' = bt_pools s \<and> bt_live s' = bt_live s
    \<and> tel_tracers (bt_tel s') = tel_tracers (bt_tel s) \<and> tel_meters (bt_tel s') = tel_meters (bt_tel s)"
proof -
  note unfolded = gateway_stop_def HashRing_Close_def Let_def close_clients_frame
  have "bt_clients s' = bt_clients s"
    using assms by (auto simp: unfolded holds_def close_clients fun_eq_iff split: prod.splits)
  moreover have "bt_pools s' = bt_pools s"
    using assms by (auto simp: unfolded holds_def split: prod.splits)
  moreover have "bt_live s' = snd (Close (gw_publisher g, bt_live s1))"
    using assms(2) by (auto simp: unfolded split: prod.splits)
  moreover have "snd (Close (gw_publisher g, bt_live s1)) = bt_live s"
    using assms(1) by (auto simp: holds_def publisher_holds_def Close_def close_locked_def close_flag_def Let_def split: option.splits)
  moreover have "bt_tel s' = snd (obs_Shutdown T (gw_obs g) (bt_tel s1))"
    using assms(2) by (auto simp: unfolded split: prod.splits)
  moreover have "tel_tracers (snd (obs_Shutdown T (gw_obs g) (bt_tel s1))) = tel_tracers (bt_tel s)
      \<and> tel_meters (snd (obs_Shutdown T (gw_obs g) (bt_tel s1))) = tel_meters (bt_tel s)"
    using assms(1) obs_Shutdown_undoes [OF assms(3)] unfolding holds_def obs_holds_def by blast
  ultimately show ?thesis using assms(2) by (auto simp: gateway_stop_def Let_def split: prod.splits)
qed

section \<open>Serving requests\<close>

text \<open>With a reachable database the redirect handler's answer is determined by the row, up to the clock.\<close>

definition redirect_answer :: "url_row option \<Rightarrow> request \<Rightarrow> click_event list \<Rightarrow> response \<Rightarrow> click_event list \<Rightarrow> bool" where
  "redirect_answer found c sp resp sp' =
     (case found of
        None \<Rightarrow> rsp_status resp = 404 \<and> sp' = sp
      | Some row \<Rightarrow>
          rsp_status resp = 301 \<and> rsp_body resp = LocationHeader (row_original_url row)
            \<and> (\<exists>now. sp' = sp @ [\<lparr>ev_ShortCode = rq_code c, ev_ClickedAt = now, ev_IP = rq_ClientIP c, ev_Referer = rq_Referer c\<rparr>])
          \<or> row_expires_at row \<noteq> None \<and> rsp_status resp = 410 \<and> sp' = sp)"

lemma redirect_avail:
  assumes "cached_inv E V r w" and "pg_up E V" and "h_urlService h = URLService E (NewURLService E r base len retries)"
  shows "wp (redirect E h c) (\<lambda>resp w'. rsp_status resp \<noteq> 500 \<and> (rows V (ext w) (rq_code c) = None \<longrightarrow> rsp_status resp = 404)) w"
proof -
  have "cached_inv E V r w \<and> pg_up E V" using assms by simp
  note avail = cached_service_up.getAndValidateURL_avail [OF this service_repo(1)]
  show ?thesis
    unfolding redirect_def assms(3) URLService_def url_service_interface.simps Redirect_def go_bind_assoc wp_bind
    by (rule wp_mono [OF avail])
       (auto simp: wp_simps lookup_error_def errorResponse_def go_Publish_def split: if_splits prod.splits)
qed

lemma redirect_tight:
  assumes "cached_inv E V r w" and "pg_up E V" and "h_urlService h = URLService E (NewURLService E r base len retries)"
  shows "wp (redirect E h c)
    (\<lambda>resp w'. rows V (ext w') = rows V (ext w)
       \<and> redirect_answer (rows V (ext w) (rq_code c)) c (spawned w) resp (spawned w')) w"
proof -
  have "api_inv E V r (spawned w) w" using assms(1) by (simp add: api_inv_def)
  from wp_conj [OF gateway_api.redirect_wp [OF this assms(3), of c] redirect_avail [OF assms, of c]]
  show ?thesis by (rule wp_mono) (auto simp: redirect_answer_def split: option.splits)
qed

lemma Split_single: "c \<notin> set s \<Longrightarrow> Split s c = [s]"
  by (induction s) auto

lemma dispatch_code:
  "CHR ''/'' \<notin> set code \<Longrightarrow> code \<notin> {'''', ''health'', ''metrics''} \<Longrightarrow>
     dispatch ''GET'' (Split code CHR ''/'') = Some (RedirectEndpoint, Some code)"
  by (auto simp: Split_single dispatch_def router_routes_def RegisterRoutes_def map_filter_simps Let_def)

lemma FullPath_redirect: "FullPath (Some (RedirectEndpoint, code)) = ''/:code''"
  by (simp add: FullPath_def router_routes_def RegisterRoutes_def)

text \<open>What the middleware records about a request it let through, whatever the answer.\<close>

definition recorded :: "http_request \<Rightarrow> string \<Rightarrow> served \<Rightarrow> bool" where
  "recorded q route sv =
     (sv_points sv = [(hq_method q, route, Itoa (int (rsp_status (sv_response sv))))]
      \<and> sv_logs sv = [\<lparr>al_level = request_log_level (rsp_status (sv_response sv)), al_method = hq_method q,
          al_path = hq_path q, al_status = rsp_status (sv_response sv), al_ip = rq_ClientIP (hq_request q)\<rparr>])"

lemma middleware_wp:
  assumes "wp (limited L limiter handle q) (\<lambda>sv w'. sv_points sv = [] \<and> sv_logs sv = [] \<and> Q (sv_response sv) w') w"
  shows "wp (Logging (Metrics route (limited L limiter handle)) q) (\<lambda>sv w'. recorded q route sv \<and> Q (sv_response sv) w') w"
  unfolding Logging_def Metrics_def go_bind_assoc wp_bind
  by (rule wp_mono [OF assms]) (simp add: wp_simps recorded_def Let_def)

text \<open>The limiter's refusal, if one is configured.\<close>

definition refused :: "'x rl_env \<Rightarrow> rl_client option \<Rightarrow> request \<Rightarrow> 'x world \<Rightarrow> bool" where
  "refused L limiter c w = (\<exists>client v. limiter = Some client \<and> verdict L client c w = Some v \<and> \<not> rl_Allowed v)"

lemma limited_wp:
  assumes "limiter_law L V"
    and "\<And>x. keeps V (ext w) x \<Longrightarrow> wp (handle (hq_request q)) Q (w\<lparr>ext := x\<rparr>)"
  shows "wp (limited L limiter handle q)
    (\<lambda>sv w'. sv_points sv = [] \<and> sv_logs sv = [] \<and>
       (if refused L limiter (hq_request q) w
        then rsp_status (sv_response sv) = 429 \<and> spawned w' = spawned w \<and> keeps V (ext w) (ext w')
        else Q (sv_response sv) w')) w"
proof (cases limiter)
  case None
  have "wp (handle (hq_request q)) Q w" using assms(2) [of "ext w"] by simp
  with None show ?thesis by (auto simp: limited_def wp_simps plain_def refused_def elim: wp_mono)
next
  case (Some client)
  let ?c = "hq_request q"
  have "wp (RateLimit L client handle ?c) (\<lambda>(hdrs, resp) w'.
      if refused L limiter ?c w then rsp_status resp = 429 \<and> spawned w' = spawned w \<and> keeps V (ext w) (ext w') else Q resp w') w"
    unfolding RateLimit_def wp_bind
  proof (rule wp_mono [OF wp_conj [OF Check_verdict Check_keeps [OF assms(1)]]], goal_cases)
    case (1 res w1)
    then obtain x where x: "w1 = w\<lparr>ext := x\<rparr>" and k: "keeps V (ext w) x" by (auto split: prod.splits)
    have "wp (handle ?c) (\<lambda>resp. wp (go_ret (hs, resp)) (\<lambda>(hdrs, resp) w'. Q resp w')) w1" for hs
      unfolding x by (rule wp_mono [OF assms(2) [OF k]]) (simp add: wp_simps)
    with 1 x k Some show ?case
      by (cases "verdict L client ?c w") (auto simp: refused_def wp_simps split: prod.splits)
  qed
  with Some show ?thesis by (auto simp: limited_def wp_simps plain_def split: prod.splits elim!: wp_mono)
qed

section \<open>Properties\<close>

text \<open>
  Connecting the cache nodes: on success every listed node has an open client with the
  configured time-outs and pool size, and nothing else is in the map; on failure the error names a
  listed node, and if no node is listed twice every client opened on the way is closed again.
\<close>

theorem NewCacheRings_correct:
  assumes "unused_from_next s"
  shows "wp (NewCacheRings E I nodes rt wt ps)
    (\<lambda>res s'. case res of
        Inr clients \<Rightarrow> fst ` set clients = set nodes \<and> distinct (map fst clients)
          \<and> (\<forall>node c. (node, c) \<in> set clients \<longrightarrow> (\<exists>opt. bt_clients s' c = Some opt \<and> configured rt wt ps opt))
      | Inl node \<Rightarrow> node \<in> set nodes \<and> (distinct nodes \<longrightarrow> bt_clients s' = bt_clients s)) s"
proof -
  have closes: "wp (cache_rings_loop E I rt wt ps nodes []) (\<lambda>res s'. distinct nodes \<longrightarrow> opened_over (bt_clients s) res (bt_clients s')) s"
  proof (cases "distinct nodes")
    case True
    with cache_rings_loop_closes [OF assms, of "[]" nodes "bt_clients s"] assms show ?thesis
      by (auto simp: unused_from_next_def elim: wp_mono)
  next
    case False
    have "wp (cache_rings_loop E I rt wt ps nodes []) (\<lambda>res s'. True) s"
      by (rule wp_mono [OF cache_rings_loop_wp [OF assms]]) (simp_all add: all_open_def)
    with False show ?thesis by simp
  qed
  show ?thesis
    unfolding NewCacheRings_def
    by (rule wp_mono [OF wp_conj [OF cache_rings_loop_wp [OF assms, of rt wt ps "[]"] closes]])
       (auto simp: all_open_def list_all_iff opened_over_def split: sum.splits)
qed

text \<open>A process that has opened nothing, and services that accept everything.\<close>

definition demo_infra :: "sim infra_env" where
  "demo_infra =
     \<lparr>pgx_ParseConfig = (\<lambda>_. Some \<lparr>pc_MaxConns = 4, pc_MinConns = 0, pc_MaxConnLifetime = 0, pc_MaxConnIdleTime = 0\<rparr>),
      pgx_NewWithConfig = (\<lambda>cfg x. (True, x)),
      redis_ParseURL = (\<lambda>u. if u = ''redis://bad/0'' then None else Some \<lparr>ro_ReadTimeout = 3 * Second, ro_WriteTimeout = 3 * Second, ro_PoolSize = 10\<rparr>)\<rparr>"

definition demo_boot :: "sim boot" where
  "demo_boot = \<lparr>bt_ext = sim_start, bt_pools = [], bt_clients = Map.empty, bt_next = 0, bt_live = {},
     bt_tel = \<lparr>tel_tracers = [], tel_meters = [], tel_next = 0, tel_global_tracer = None, tel_global_meter = None, tel_propagator = None\<rparr>\<rparr>"

definition demo_otel :: otel_env where
  "demo_otel =
     \<lparr>resource_New = (\<lambda>_. True), otlptracegrpc_New = (\<lambda>_. False), prometheus_New = True,
      tp_Shutdown = (\<lambda>_. Some ''timeout''), mp_Shutdown = (\<lambda>_. None)\<rparr>"

definition no_broker :: broker_answer where
  "no_broker = \<lparr>ba_connected = None, ba_channel_ok = False, ba_exchange_ok = False\<rparr>"

lemma demo_boot_unused: "unused_from_next demo_boot"
  by (simp add: unused_from_next_def demo_boot_def)

theorem NewCacheRings_correct_witness:
  "wp (NewCacheRings (sim_env False) demo_infra [''a'', ''b'', ''bad''] 1 1 5)
    (\<lambda>res s'. res = Inl ''bad'' \<and> bt_clients s' = Map.empty) demo_boot"
proof -
  have "wp (NewCacheRings (sim_env False) demo_infra [''a'', ''b'', ''bad''] 1 1 5) (\<lambda>res s'. res = Inl ''bad'') demo_boot"
    by (simp add: NewCacheRings_def NewCacheClient_def nodeConnectionString_def demo_infra_def wp_def go_simps boot_call_def sim_env_def Let_def)
  from wp_conj [OF this NewCacheRings_correct [OF demo_boot_unused]] show ?thesis
    by (rule wp_mono) (auto simp: demo_boot_def)
qed


text \<open>A node that is listed twice leaks its first client when a later node fails.\<close>

theorem duplicate_node_leaks_client:
  "wp (NewCacheRings (sim_env False) demo_infra [''a'', ''a'', ''bad''] 1 1 5)
    (\<lambda>res s'. res = Inl ''bad'' \<and> bt_clients s' 0 \<noteq> None) demo_boot"
  by (simp add: NewCacheRings_def NewCacheClient_def nodeConnectionString_def demo_infra_def demo_boot_def wp_def go_simps
    boot_call_def sim_env_def close_client_def Let_def)


text \<open>A table with one row, and empty caches.\<close>

definition row_world :: "sim world" where
  "row_world = demo_world\<lparr>ext := sim_start\<lparr>sim_rows := [''x'' \<mapsto> inserted_row 5 ''x'' ''http://a/'' (Time 0 0) None]\<rparr>\<rparr>"

definition get_request :: "string \<Rightarrow> http_request" where
  "get_request path = \<lparr>hq_method = ''GET'', hq_path = path, hq_request = demo_rq None ''''\<rparr>"

lemma row_world_row: "rows sim_view (ext row_world) ''x'' = Some (inserted_row 5 ''x'' ''http://a/'' (Time 0 0) None)"
proof -
  have "valid_utf8 ''x''" "valid_utf8 ''http://a/''" by code_simp+
  then have "row_valid ''x'' (inserted_row 5 ''x'' ''http://a/'' (Time 0 0) None)" by (rule row_valid_inserted)
  then show ?thesis by (simp add: row_world_def sim_view_def)
qed

lemma row_world_spawned: "spawned row_world = []"
  by (simp add: row_world_def demo_world_def)

lemma no_entries_coherent: "coherent E sim_view r (ext row_world)"
  by (simp add: coherent_def coherent_at_def row_world_def sim_view_def sim_start_def)

lemmas start_simps = gateway_start_def start_with_clients_def NewPostgresPool_def NewCacheRings_def NewCacheClient_def nodeConnectionString_def
  start_rate_limiter_def start_publisher_def boot_call_def Let_def go_simps demo_infra_def sim_env_def boot_tel_def obs_Setup_def
  NewTracerProvider_def NewMeterProvider_def main_obs_config_def Getenv_def demo_otel_def

lemma demo_start:
  "\<exists>g s'. gateway_start (sim_env False) demo_infra id (\<lambda>_. True) no_broker Map.empty demo_otel demo_boot = (Ret (Inr g), s')
     \<and> gw_rateLimiter g = None"
  by (simp add: start_simps Load_def getEnv_def getCacheNodes_def)



text \<open>
  C38: A node list of separators and white space only is accepted: the gateway starts with an empty
  ring, and then every redirect the breaker lets through to the cache dereferences a nil client; the
  recovery middleware answers 500 whether the code exists or not, and the request is neither logged
  nor counted by the gateway's middleware.
\<close>

theorem blank_node_list_breaks_redirects:
  assumes "gateway_start E I order dialable B env T s = (Ret (Inr g), s')" and "unused_from_next s"
    and "\<And>cs. set (order cs) = set cs"
    and "env ''CACHE_NODES'' = Some list" and "list \<noteq> ''''" and "blank_list list" and "env ''RATE_LIMITER_ADDR'' = None"
    and "fst (cb_before E (ext w)) = None"
    and "CHR ''/'' \<notin> set code" and "code \<notin> {'''', ''health'', ''metrics''}"
    and "hq_method q = ''GET''" and "hq_path q = ''/'' @ code"
  shows "\<exists>w'. serve E L g amqp_connected q w = (Ret (Recovered 500), w')"
proof -
  have built: "built_from env order g" by (rule gateway_start_built [OF assms(1,2)])
  have "cc_Nodes (Cache (Load env)) = []"
    using assms(4-6) by (simp add: Load_def Let_def getCacheNodes_empty_iff getEnv_def)
  moreover have "gw_rateLimiter g = None"
    using built assms(7) by (simp add: built_from_def Load_def Let_def getEnv_def)
  moreover have "order [] = []" using assms(3) [of "[]"] by simp
  ultimately have limiter: "gw_rateLimiter g = None" and ring: "gw_ring g = NewHashRing [] 150"
    using built by (auto simp: built_from_def)
  have "vnodes (NewHashRing [] 150) = []" by (simp add: NewHashRing_def Let_def)
  then have "prov_ClientFor (ring_provider (gw_ring g)) key = None" for key
    by (simp add: ring ring_provider_def ClientFor_def nodeFor_def Let_def)
  then have nil: "cache_client (router_repo E g) key = go_panic nil_dereference" for key
    by (simp add: cache_client_def router_repo_def NewCachedURLRepository_def Let_def)
  have cache: "cr_cache (router_repo E g) \<noteq> None" by (simp add: router_repo_def NewCachedURLRepository_def Let_def)
  obtain x where "cb_before E (ext w) = (None, x)" using assms(8) by (cases "cb_before E (ext w)") auto
  then have get: "\<exists>w'. cacheGet E (router_repo E g) ctx key w = (Panic nil_dereference, w')" for ctx key
    by (simp add: cacheGet_def Execute_def nil Let_def go_simps call_def)
  have lookup: "\<exists>w'. CachedURLRepository_GetByCode E (router_repo E g) ctx code w = (Panic nil_dereference, w')" for ctx
    using cache get [of ctx "cache_key code"]
    by (auto simp: CachedURLRepository_GetByCode_def Let_def go_simps split: option.splits)
  have found: "dispatch (hq_method q) (Split (tl (hq_path q)) CHR ''/'') = Some (RedirectEndpoint, Some code)"
    using dispatch_code [OF assms(9,10)] assms(11,12) by simp
  have svc: "h_urlService (router_handler E L g amqp_connected) = URLService E (NewURLService E (router_repo E g)
      (app_BaseURL (App (gw_config g))) (app_ShortCodeLen (App (gw_config g))) (app_ShortCodeRetries (App (gw_config g))))"
    by (simp add: router_handler_def gateway_handler_service)
  have "\<exists>w'. redirect E (router_handler E L g amqp_connected) ((hq_request q)\<lparr>rq_code := code\<rparr>) w = (Panic nil_dereference, w')"
    using lookup [of "rq_ctx (hq_request q)"]
    by (auto simp: redirect_def svc URLService_def Redirect_def getAndValidateURL_def service_repo go_simps)
  then show ?thesis
    by (auto simp: serve_def Let_def found Logging_def Metrics_def limited_def limiter endpoint_handler_def go_simps)
qed

lemma blank_start:
  "\<exists>g s'. gateway_start (sim_env False) demo_infra id (\<lambda>_. True) no_broker [''CACHE_NODES'' \<mapsto> '','' ] demo_otel demo_boot = (Ret (Inr g), s')"
proof -
  have "Split '','' CHR '','' = ['''', '''']" by simp
  moreover have "TrimSpace '''' = ''''" by code_simp
  ultimately show ?thesis
    by (simp add: start_simps Load_def getEnv_def getCacheNodes_def)
qed

theorem blank_node_list_breaks_redirects_witness:
  "\<exists>g s' w'. gateway_start (sim_env False) demo_infra id (\<lambda>_. True) no_broker [''CACHE_NODES'' \<mapsto> '','' ] demo_otel demo_boot = (Ret (Inr g), s')
     \<and> serve (sim_env False) demo_limiter g (go_ret False) (get_request ''/x'') row_world = (Ret (Recovered 500), w')"
proof -
  obtain g s' where g: "gateway_start (sim_env False) demo_infra id (\<lambda>_. True) no_broker [''CACHE_NODES'' \<mapsto> '','' ] demo_otel demo_boot = (Ret (Inr g), s')"
    using blank_start by blast
  have "blank_list '',''" by code_simp
  then have "\<exists>w'. serve (sim_env False) demo_limiter g (go_ret False) (get_request ''/x'') row_world = (Ret (Recovered 500), w')"
    by (intro blank_node_list_breaks_redirects [OF g demo_boot_unused, of "'',''" _ "''x''"])
       (simp_all add: get_request_def sim_env_def)
  with g show ?thesis by blast
qed

end
