(* ===== verification/Gateway_Service.thy ===== *)
theory Gateway_Service
  imports Gateway
begin

text \<open>
  Every request to a started gateway gets a response its documentation lists, whatever PostgreSQL,
  Redis, the rate limiter and the breakers answer and in whatever state they are: the methods of the
  repository, the service and the handlers never panic as long as every key has a Redis client and
  codes have a length. Nothing is assumed of the services here.
\<close>

section \<open>Nothing panics\<close>

lemma always_call [always_intros]: "returns (call f)" and always_emit [always_intros]: "returns (emit m)"
  by (simp_all add: always_def wp_simps split: prod.splits)

lemma Execute_returns: "returns req \<Longrightarrow> returns (Execute E br req)"
  unfolding Execute_def
  by (rule always_bind [OF always_call], rule always_cases)
     (auto intro!: always_try always_intros)

lemma cache_client_returns: "owner r key = Some c \<Longrightarrow> returns (cache_client r key)"
  by (auto simp: always_def wp_cache_client)

lemma cache_calls_return:
  assumes "clients_total r" and "cr_cache r \<noteq> None"
  shows "returns (cacheGet E r ctx key)" and "returns (cacheSet E r ctx key data ttl)" and "returns (cacheDel E r ctx key)"
proof -
  obtain c where "owner r key = Some c" using owner_total [OF assms] by blast
  note intros = always_intros Execute_returns cache_client_returns [OF this]
  show "returns (cacheGet E r ctx key)" unfolding cacheGet_def Let_def by (intro intros) simp
  show "returns (cacheSet E r ctx key data ttl)" unfolding cacheSet_def cache_command_def Let_def by (intro intros) simp_all
  show "returns (cacheDel E r ctx key)" unfolding cacheDel_def cache_command_def Let_def by (intro intros) simp_all
qed

text \<open>
  A repository whose methods return under a condition on its configuration, and the service over it.
\<close>

locale total_repository =
  fixes R :: "'x repository" and ok :: bool
  assumes get_returns: "ok \<Longrightarrow> returns (GetByCode R ctx code)"
    and create_returns: "ok \<Longrightarrow> returns (Create R ctx u)"
    and delete_returns: "ok \<Longrightarrow> returns (Delete R ctx code)"
begin

lemma getAndValidateURL_returns:
  assumes ok and "svc_repo s = R"
  shows "returns (getAndValidateURL E s ctx code)"
  unfolding getAndValidateURL_def assms(2) by (intro always_intros get_returns assms(1)) simp_all

lemma lookups_return:
  assumes ok and "svc_repo s = R"
  shows "returns (GetURL E s ctx code)" and "returns (Redirect E s ctx code)" and "returns (DeleteURL E s ctx code)"
  unfolding GetURL_def Redirect_def DeleteURL_def
  by (intro always_intros getAndValidateURL_returns [OF assms] delete_returns [OF assms(1), folded assms(2)]; simp)+

lemma create_attempts_return:
  assumes ok and "svc_repo s = R" and "0 \<le> codeLength g"
  shows "returns (create_attempts E s g ctx url expiresAt attempts)"
proof (induction attempts)
  case Nil
  show ?case by (simp add: always_ret)
next
  case (Cons a attempts)
  have gen: "returns (go_lift (Generate U g v))" for U v
    using Generate_total [OF assms(3), of U v] by (auto simp: always_def wp_simps)
  show ?case
    unfolding create_attempts.simps new_url_def assms(2)
    by (intro always_intros gen Cons create_returns assms(1)) simp_all
qed

lemma CreateShortURL_returns:
  assumes ok and "svc_repo s = R" and "0 \<le> shortCodeLen s"
  shows "returns (CreateShortURL E s ctx req)"
proof -
  have "codeLength (NewShortCodeGenerator (shortCodeLen s) (shortCodeRetries s)) = shortCodeLen s"
    by (simp add: NewShortCodeGenerator_def)
  with assms(3) have g: "0 \<le> codeLength (NewShortCodeGenerator (shortCodeLen s) (shortCodeRetries s))" by simp
  show ?thesis
    unfolding CreateShortURL_def create_alias_def create_generated_def new_url_def Let_def
    by (intro always_intros create_attempts_return [OF assms(1,2) g] create_returns [OF assms(1), folded assms(2)]) simp_all
qed

end

interpretation cached_total: total_repository "CachedURLRepository E r" "clients_total r \<and> cr_db r = URLRepository E" for E r
proof (unfold_locales, goal_cases)
  case (1 ctx code)
  then have db: "cr_db r = URLRepository E" and total: "clients_total r" by simp_all
  have rewrite: "returns (rewriteCache E c r key res)" for c key res
    unfolding rewriteCache_def store_url_def by (intro always_intros cache_calls_return [OF total]) simp_all
  show ?case
    unfolding cached_simps CachedURLRepository_GetByCode_def queryFromDBWithSingleflight_def singleflight_callback_def Let_def db
      repository_simps URLRepository_GetByCode_def
    by (intro always_intros cache_calls_return [OF total] rewrite) simp_all
next
  case (2 ctx u)
  then have db: "cr_db r = URLRepository E" and total: "clients_total r" by simp_all
  show ?case
    unfolding cached_simps CachedURLRepository_Create_def db repository_simps URLRepository_Create_def store_url_def
    by (intro always_intros cache_calls_return [OF total]) simp_all
next
  case (3 ctx code)
  then have db: "cr_db r = URLRepository E" and total: "clients_total r" by simp_all
  show ?case
    unfolding cached_simps CachedURLRepository_Delete_def db repository_simps URLRepository_Delete_def
    by (intro always_intros cache_calls_return [OF total]) simp_all
qed

section \<open>Documented responses\<close>

text \<open>The status codes in the comments above the handlers; the metrics page has just one.\<close>

fun documented :: "endpoint \<Rightarrow> nat set" where
  "documented MetricsEndpoint = {200}"
| "documented HealthCheck = {200, 503}"
| "documented CreateShortURLEndpoint = {201, 400, 409, 500}"
| "documented GetURLEndpoint = {200, 404, 410, 500}"
| "documented DeleteURLEndpoint = {204, 404, 500}"
| "documented RedirectEndpoint = {301, 404, 410, 500}"

text \<open>The body that goes with an endpoint and a status.\<close>

definition error_body :: "response \<Rightarrow> bool" where
  "error_body resp =
     (\<exists>msg. 400 \<le> rsp_status resp \<and> rsp_body resp = ErrorBody \<lparr>err_Error = StatusText (rsp_status resp), err_Message = msg\<rparr>)"

fun success_body :: "endpoint \<Rightarrow> body \<Rightarrow> bool" where
  "success_body HealthCheck (HealthBody _) = True"
| "success_body CreateShortURLEndpoint (CreatedBody _) = True"
| "success_body GetURLEndpoint (MetadataBody _) = True"
| "success_body RedirectEndpoint (LocationHeader _) = True"
| "success_body MetricsEndpoint NoBody = True"
| "success_body DeleteURLEndpoint NoBody = True"
| "success_body _ _ = False"

definition well_formed :: "endpoint option \<Rightarrow> response \<Rightarrow> bool" where
  "well_formed found resp =
     (case found of
        None \<Rightarrow> rsp_status resp = 404
      | Some ep \<Rightarrow> rsp_status resp \<in> documented ep
          \<and> (if 400 \<le> rsp_status resp \<and> ep \<noteq> HealthCheck then error_body resp else success_body ep (rsp_body resp)))"

lemmas shapes = well_formed_def error_body_def errorResponse_def lookup_error_def

lemma handlers_well_formed:
  "returns (api_CreateShortURL (h_urlService h) (rq_ctx c) (the (rq_body c))) \<Longrightarrow>
     always (createShortURL h c) (well_formed (Some CreateShortURLEndpoint))"
  "returns (api_GetURL (h_urlService h) (rq_ctx c) (rq_code c)) \<Longrightarrow> always (getURL h c) (well_formed (Some GetURLEndpoint))"
  "returns (api_DeleteURL (h_urlService h) (rq_ctx c) (rq_code c)) \<Longrightarrow> always (deleteURL h c) (well_formed (Some DeleteURLEndpoint))"
  "returns (api_Redirect (h_urlService h) (rq_ctx c) (rq_code c)) \<Longrightarrow> always (redirect E h c) (well_formed (Some RedirectEndpoint))"
  unfolding createShortURL_def getURL_def deleteURL_def redirect_def go_Publish_def
  by (intro always_intros; simp add: shapes)+

lemma optional_returns: "(\<And>m. v = Some m \<Longrightarrow> returns m) \<Longrightarrow> returns (optional v)"
  unfolding optional_def by (intro always_intros) simp_all

lemma ring_Ping_returns: "returns (ring_Ping E ctx cs)"
proof (induction cs)
  case Nil
  show ?case by (simp add: always_ret)
next
  case (Cons c cs)
  show ?case unfolding ring_Ping.simps by (intro always_intros Cons) simp
qed

lemma healthCheck_well_formed:
  assumes "returns amqp_connected"
  shows "always (healthCheck (router_handler E L g amqp_connected) c) (well_formed (Some HealthCheck))"
proof -
  let ?h = "router_handler E L g amqp_connected"
  have fields: "h_cache_Ping ?h = (\<lambda>ctx. go_bind (ring_Ping E ctx (gw_order g)) (\<lambda>err. go_ret (err \<noteq> None)))"
    "h_db_Ping ?h = (\<lambda>ctx. go_bind (call (pg_Ping E ctx)) (\<lambda>err. go_ret (err \<noteq> None)))"
    "h_cacheCBState ?h = Some (CBState E)" "h_rateLimCBState ?h = map_option (\<lambda>_. rl_CBState L) (gw_rateLimiter g)"
    "h_publisher ?h = map_option (\<lambda>_. amqp_connected) (gw_publisher g)"
    by (simp_all add: router_handler_def gateway_handler_def WithCBProviders_def NewHandler_def Let_def)
  have pings: "returns (h_cache_Ping ?h ctx)" "returns (h_db_Ping ?h ctx)" for ctx
    unfolding fields by (intro always_intros ring_Ping_returns; simp)+
  have states: "returns (optional (h_cacheCBState ?h))" "returns (optional (h_rateLimCBState ?h))"
    unfolding fields CBState_def rl_CBState_def
    by (rule optional_returns; auto intro!: always_intros)+
  have publisher: "returns (optional (h_publisher ?h))"
    unfolding fields by (rule optional_returns) (use assms in auto)
  show ?thesis
    unfolding healthCheck_def Let_def
    by (intro always_bind pings states publisher always_ret) (simp add: well_formed_def)
qed

section \<open>The whole chain\<close>

lemma endpoint_well_formed:
  assumes "clients_total (router_repo E g)" and "0 \<le> app_ShortCodeLen (App (gw_config g))" and "returns amqp_connected"
  shows "always (endpoint_handler E (router_handler E L g amqp_connected) found c) (well_formed (map_option fst found))"
proof -
  let ?s = "NewURLService E (router_repo E g) (app_BaseURL (App (gw_config g))) (app_ShortCodeLen (App (gw_config g)))
      (app_ShortCodeRetries (App (gw_config g)))"
  have svc: "h_urlService (router_handler E L g amqp_connected) = URLService E ?s"
    by (simp add: router_handler_def gateway_handler_service)
  have ok: "clients_total (router_repo E g) \<and> cr_db (router_repo E g) = URLRepository E"
    using assms(1) by (simp add: router_repo_def NewCachedURLRepository_def Let_def)
  have len: "0 \<le> shortCodeLen ?s" using assms(2) by (simp add: NewURLService_def)
  note returns = cached_total.lookups_return [OF ok service_repo(1)] cached_total.CreateShortURL_returns [OF ok service_repo(1) len]
  have api: "returns (api_CreateShortURL (URLService E ?s) ctx req)" "returns (api_GetURL (URLService E ?s) ctx code)"
    "returns (api_DeleteURL (URLService E ?s) ctx code)" "returns (api_Redirect (URLService E ?s) ctx code)" for ctx req code
    by (simp_all add: URLService_def returns)
  show ?thesis
  proof (cases found)
    case None
    then show ?thesis by (simp add: endpoint_handler_def always_ret well_formed_def)
  next
    case (Some p)
    obtain ep code where p: "p = (ep, code)" by force
    have plain_ok: "well_formed (Some MetricsEndpoint) \<lparr>rsp_status = 200, rsp_body = NoBody\<rparr>" by (simp add: well_formed_def)
    show ?thesis
      by (cases ep)
         (simp_all add: Some p endpoint_handler_def Let_def plain_ok always_ret handlers_well_formed svc api
            healthCheck_well_formed [OF assms(3)])
  qed
qed

definition limit_response :: "response \<Rightarrow> bool" where
  "limit_response resp = (rsp_status resp = 429 \<and> error_body resp)"

lemma limited_well_formed:
  assumes "\<And>c. always (handle c) P"
  shows "always (limited L limiter handle q)
    (\<lambda>sv. sv_points sv = [] \<and> sv_logs sv = [] \<and> (P (sv_response sv) \<or> limiter \<noteq> None \<and> limit_response (sv_response sv)))"
proof (cases limiter)
  case None
  then show ?thesis
    by (auto simp: limited_def plain_def intro!: always_bind_post [OF assms] always_ret)
next
  case (Some client)
  have check: "returns (Check L client ctx ip)" for ctx ip
    unfolding Check_def rl_Execute_def Let_def by (intro always_intros) (auto intro!: always_try always_intros)
  have ret: "always (go_bind (handle c) (\<lambda>resp. go_ret (hdrs, resp))) (\<lambda>(_, resp). P resp)" for c and hdrs :: "(string \<times> string) list"
    by (rule always_bind_post [OF assms]) (simp add: always_ret)
  have "always (RateLimit L client handle c) (\<lambda>(_, resp). P resp \<or> limit_response resp)" for c
    unfolding RateLimit_def
    by (intro always_intros check always_mono [OF ret]) (auto simp: limit_response_def error_body_def StatusText_def)
  then show ?thesis
    by (auto simp: limited_def plain_def Some intro!: always_bind_post [of "RateLimit L client handle (hq_request q)"] always_ret)
qed

section \<open>Properties\<close>



end
