(* ===== verification/Instruments.thy ===== *)
theory Instruments
  imports Gateway
begin

text \<open>
  The metric instruments the constructors create: those of the repository
  (\<^verbatim>\<open>NewCachedURLRepository\<close>), with the callback of the breaker gauge, and those of the HTTP
  middleware (\<^verbatim>\<open>Metrics\<close>). The metric points the other theories keep belong to them.
\<close>

section \<open>Definitions\<close>

datatype instrument_kind = Int64Counter | Float64Histogram "rat list" | Float64ObservableGauge

record instrument =
  in_name :: string
  in_kind :: instrument_kind
  in_unit :: string

definition latency_buckets :: "rat list" where
  "latency_buckets = [1 / 1000, 5 / 1000, 1 / 100, 25 / 1000, 5 / 100, 1 / 10, 25 / 100, 5 / 10, 1]"

definition repository_instruments :: "instrument list" where
  "repository_instruments =
     [\<lparr>in_name = ''cache_hits_total'', in_kind = Int64Counter, in_unit = ''''\<rparr>,
      \<lparr>in_name = ''cache_misses_total'', in_kind = Int64Counter, in_unit = ''''\<rparr>,
      \<lparr>in_name = ''db_query_duration_seconds'', in_kind = Float64Histogram latency_buckets, in_unit = ''s''\<rparr>,
      \<lparr>in_name = ''errors_total'', in_kind = Int64Counter, in_unit = ''''\<rparr>]"

definition http_instruments :: "instrument list" where
  "http_instruments =
     [\<lparr>in_name = ''http_request_duration_seconds'', in_kind = Float64Histogram latency_buckets, in_unit = ''s''\<rparr>,
      \<lparr>in_name = ''http_requests_total'', in_kind = Int64Counter, in_unit = ''''\<rparr>]"

definition breaker_gauge :: instrument where
  "breaker_gauge = \<lparr>in_name = ''circuit_breaker_state'', in_kind = Float64ObservableGauge, in_unit = ''''\<rparr>"

text \<open>gobreaker numbers its states in the order closed, half-open, open.\<close>

fun state_number :: "cb_state \<Rightarrow> nat" where
  "state_number StateClosed = 0"
| "state_number StateHalfOpen = 1"
| "state_number StateOpen = 2"

text \<open>The gauge's callback: the value it observes and its label.\<close>

definition observe_stateCB :: "'x env \<Rightarrow> ('x world, float64 \<times> (string \<times> string)) go" where
  "observe_stateCB E =
     go_bind (call (cb_State E)) (\<lambda>s. go_ret (Finite (of_nat (state_number s)), (''name'', ''cache'')))"

text \<open>Where a metric point of the repository is recorded: the instrument's name, and whether as a count.\<close>

fun point_of :: "metric \<Rightarrow> string \<times> bool" where
  "point_of (CacheHits node) = (''cache_hits_total'', True)"
| "point_of (CacheMisses node) = (''cache_misses_total'', True)"
| "point_of (DbQueryDuration op) = (''db_query_duration_seconds'', False)"
| "point_of (TotalErrors type) = (''errors_total'', True)"

section \<open>Lemmas\<close>

text \<open>Every point has an instrument of its kind, and all instruments of the process differ in name.\<close>

lemma points_have_instruments:
  "\<exists>i \<in> set repository_instruments. in_name i = fst (point_of m) \<and> (in_kind i = Int64Counter \<longleftrightarrow> snd (point_of m))"
  by (cases m) (simp_all add: repository_instruments_def)

lemma instrument_names_distinct: "distinct (map in_name (breaker_gauge # repository_instruments @ http_instruments))"
  by (simp add: breaker_gauge_def repository_instruments_def http_instruments_def)

lemma buckets_sorted: "sorted_wrt (<) latency_buckets"
  by (simp add: latency_buckets_def)

text \<open>The gauge and the health report show the same state: zero is reported as closed, two as open.\<close>

lemma gauge_agrees_with_CBState:
  "wp (observe_stateCB E) (\<lambda>(v, label) w'. fst (CBState E w) = Ret st \<longrightarrow>
     (v = Finite 0 \<longleftrightarrow> st = ''closed'') \<and> (v = Finite 2 \<longleftrightarrow> st = ''open'')) w"
proof -
  obtain s x where s: "cb_State E (ext w) = (s, x)" by force
  then show ?thesis
    by (cases s) (auto simp: observe_stateCB_def CBState_def cb_state_String_def wp_def go_simps call_def)
qed

end
