(* ===== verification/Test_Containers.thy ===== *)
theory Test_Containers
  imports Gateway
begin

text \<open>
  \<^verbatim>\<open>internal/testutil\<close>: the containers the integration tests run against. The container
  runtime, the migration library and the commands inside a container are parameters; the connections
  are opened by the constructors of \<^verbatim>\<open>infra.go\<close> (theory \<open>Gateway\<close>). The state is what the
  test process holds: its connections, the containers with their own state, the migration instances.
\<close>

section \<open>Definitions\<close>

type_synonym container = nat

record ('x, 'k) lab =
  lab_boot :: "'x boot"
  lab_containers :: "container \<rightharpoonup> 'k"
  lab_next :: container
  lab_migrators :: nat

record run_request =
  rr_image :: string
  rr_settings :: "(string \<times> string) list"
  rr_wait_log :: string
  rr_occurrence :: nat
  rr_timeout :: int

datatype migrate_err = ErrNoChange | MigrateErr string

text \<open>
  \<open>tc_Run\<close> may report an error and have created a container all the same, as the library's
  documentation says of a container that does not become ready.
\<close>

record ('x, 'k) lab_env =
  tc_Run :: "run_request \<Rightarrow> 'k option \<times> string option"
  tc_ConnectionString :: "container \<Rightarrow> string list \<Rightarrow> string + string"
  tc_Terminate :: "container \<Rightarrow> string option"
  tc_Exec :: "string list \<Rightarrow> 'k \<Rightarrow> (int \<times> string option) \<times> 'k"
  tc_Stop :: "int \<Rightarrow> 'k \<Rightarrow> string option \<times> 'k"
  tc_Start :: "'k \<Rightarrow> string option \<times> 'k"
  tc_AmqpURL :: "'k \<Rightarrow> string + string"
  source_dir :: "string list" \<comment> \<open>the components of the directory of \<^verbatim>\<open>testdb.go\<close>\<close>
  migrate_New :: "string \<Rightarrow> string \<Rightarrow> string option"
  migrate_Up :: "string \<Rightarrow> string \<Rightarrow> 'x \<Rightarrow> migrate_err option \<times> 'x"
  pg_Exec :: "string \<Rightarrow> 'x \<Rightarrow> string option \<times> 'x"
  redis_FlushDB :: "client \<Rightarrow> 'x \<Rightarrow> 'x"

definition run_law :: "('x, 'k) lab_env \<Rightarrow> bool" where
  "run_law T = (\<forall>req. snd (tc_Run T req) = None \<longrightarrow> fst (tc_Run T req) \<noteq> None)"

definition lab_do :: "('x boot, 'a) go \<Rightarrow> (('x, 'k) lab, 'a) go" where
  "lab_do m = (\<lambda>s. case m (lab_boot s) of (res, b) \<Rightarrow> (res, s\<lparr>lab_boot := b\<rparr>))"

definition run_container :: "('x, 'k) lab_env \<Rightarrow> run_request \<Rightarrow> (('x, 'k) lab, container option \<times> string option) go" where
  "run_container T req = (\<lambda>s.
     case tc_Run T req of
       (None, err) \<Rightarrow> (Ret (None, err), s)
     | (Some k, err) \<Rightarrow>
         (Ret (Some (lab_next s), err),
          s\<lparr>lab_containers := (lab_containers s)(lab_next s \<mapsto> k), lab_next := lab_next s + 1\<rparr>))"

definition Terminate :: "('x, 'k) lab_env \<Rightarrow> container \<Rightarrow> (('x, 'k) lab, string option) go" where
  "Terminate T c = (\<lambda>s.
     (Ret (tc_Terminate T c),
      if tc_Terminate T c = None then s\<lparr>lab_containers := (lab_containers s)(c := None)\<rparr> else s))"

text \<open>A command or call on a container that exists, with its effect on the container's state.\<close>

definition on_container :: "container \<Rightarrow> 'a \<Rightarrow> ('k \<Rightarrow> 'a \<times> 'k) \<Rightarrow> (('x, 'k) lab, 'a) go" where
  "on_container c missing f = (\<lambda>s.
     case lab_containers s c of
       None \<Rightarrow> (Ret missing, s)
     | Some k \<Rightarrow> (case f k of (a, k') \<Rightarrow> (Ret a, s\<lparr>lab_containers := (lab_containers s)(c \<mapsto> k')\<rparr>)))"

datatype setup_err =
    ContainerErr string | ConnectionStringErr string | MigrationErr string | PoolErr | ClientErr | TerminateErr string

text \<open>The tail all set-ups share: the container is terminated, and an error of that replaces the first.\<close>

definition abandon :: "('x, 'k) lab_env \<Rightarrow> container \<Rightarrow> setup_err \<Rightarrow> (('x, 'k) lab, setup_err + 'a) go" where
  "abandon T c err =
     go_bind (Terminate T c) (\<lambda>terr. go_ret (Inl (case terr of Some t \<Rightarrow> TerminateErr t | None \<Rightarrow> err)))"

subsection \<open>The database\<close>

record test_db =
  td_Pool :: "pool_config option"
  td_container :: "container option"

definition postgres_request :: run_request where
  "postgres_request =
     \<lparr>rr_image = ''postgres:16-alpine'', rr_settings = [(''database'', ''test_db''), (''username'', ''test''), (''password'', ''test'')],
      rr_wait_log = ''database system is ready to accept connections'', rr_occurrence = 2, rr_timeout = 30 * Second\<rparr>"

text \<open>\<^verbatim>\<open>filepath.Join\<close> of an absolute directory with a relative path.\<close>

fun clean_segments :: "string list \<Rightarrow> string list \<Rightarrow> string list" where
  "clean_segments done_segs [] = rev done_segs"
| "clean_segments done_segs (seg # segs) =
     (if seg = '''' \<or> seg = ''.'' then clean_segments done_segs segs
      else if seg = ''..'' then clean_segments (tl done_segs) segs
      else clean_segments (seg # done_segs) segs)"

definition migrationsPath :: "string list \<Rightarrow> string" where
  "migrationsPath dir =
     ''/'' @ Join (clean_segments [] (dir @ Split ''../../../../migrations/schema'' CHR ''/'')) ''/''"

definition runMigrations :: "('x, 'k) lab_env \<Rightarrow> string \<Rightarrow> (('x, 'k) lab, string option) go" where
  "runMigrations T connString =
     (let source = ''file://'' @ migrationsPath (source_dir T) in
      case migrate_New T source connString of
        Some e \<Rightarrow> go_ret (Some e)
      | None \<Rightarrow>
          go_then (go_modify (\<lambda>s. s\<lparr>lab_migrators := lab_migrators s + 1\<rparr>))
            (go_bind (lab_do (boot_call (migrate_Up T source connString))) (\<lambda>err.
              go_then (go_modify (\<lambda>s. s\<lparr>lab_migrators := lab_migrators s - 1\<rparr>))
                (go_ret (case err of Some (MigrateErr e) \<Rightarrow> Some e | _ \<Rightarrow> None)))))"

definition SetupTestDB :: "('x, 'k) lab_env \<Rightarrow> 'x env \<Rightarrow> 'x infra_env \<Rightarrow> (('x, 'k) lab, setup_err + test_db) go" where
  "SetupTestDB T E I =
     go_bind (run_container T postgres_request) (\<lambda>(container, err).
     case err of
       Some e \<Rightarrow> go_ret (Inl (ContainerErr e))
     | None \<Rightarrow>
         (case container of
            None \<Rightarrow> go_panic ''nil pointer dereference''
          | Some c \<Rightarrow>
              (case tc_ConnectionString T c [''sslmode=disable''] of
                 Inl e \<Rightarrow> abandon T c (ConnectionStringErr e)
               | Inr connString \<Rightarrow>
                   go_bind (runMigrations T connString) (\<lambda>merr.
                   case merr of
                     Some e \<Rightarrow> abandon T c (MigrationErr e)
                   | None \<Rightarrow>
                       go_bind (lab_do (NewPostgresPool E I connString)) (\<lambda>pool.
                       case pool of
                         None \<Rightarrow> abandon T c PoolErr
                       | Some p \<Rightarrow> go_ret (Inr \<lparr>td_Pool = Some p, td_container = Some c\<rparr>))))))"

text \<open>The receiver may be nil; an error of the statement is dropped.\<close>

definition TestDB_Cleanup :: "('x, 'k) lab_env \<Rightarrow> test_db option \<Rightarrow> (('x, 'k) lab, unit) go" where
  "TestDB_Cleanup T t =
     (if t = None \<or> td_Pool (the t) = None then go_ret ()
      else go_then (lab_do (boot_call (pg_Exec T ''TRUNCATE TABLE urls RESTART IDENTITY''))) (go_ret ()))"

definition TestDB_Container :: "test_db \<Rightarrow> container option" where
  "TestDB_Container t = td_container t"

definition terminate_optional :: "('x, 'k) lab_env \<Rightarrow> container option \<Rightarrow> (('x, 'k) lab, unit) go" where
  "terminate_optional T c = (case c of None \<Rightarrow> go_ret () | Some c \<Rightarrow> go_then (Terminate T c) (go_ret ()))"

definition TestDB_Teardown :: "('x, 'k) lab_env \<Rightarrow> test_db \<Rightarrow> (('x, 'k) lab, unit) go" where
  "TestDB_Teardown T t =
     go_then
       (case td_Pool t of
          None \<Rightarrow> go_ret ()
        | Some p \<Rightarrow> lab_do (go_modify (\<lambda>b. b\<lparr>bt_pools := remove1 p (bt_pools b)\<rparr>)))
       (terminate_optional T (td_container t))"

subsection \<open>The cache\<close>

record test_cache =
  tcc_Client :: "client option"
  tcc_container :: "container option"

definition redis_request :: run_request where
  "redis_request =
     \<lparr>rr_image = ''redis:8-alpine'', rr_settings = [], rr_wait_log = ''Ready to accept connections'', rr_occurrence = 1,
      rr_timeout = 30 * Second\<rparr>"

definition SetupTestCache :: "('x, 'k) lab_env \<Rightarrow> 'x env \<Rightarrow> 'x infra_env \<Rightarrow> (('x, 'k) lab, setup_err + test_cache) go" where
  "SetupTestCache T E I =
     go_bind (run_container T redis_request) (\<lambda>(container, err).
     case err of
       Some e \<Rightarrow> go_ret (Inl (ContainerErr e))
     | None \<Rightarrow>
         (case container of
            None \<Rightarrow> go_panic ''nil pointer dereference''
          | Some c \<Rightarrow>
              (case tc_ConnectionString T c [] of
                 Inl e \<Rightarrow> abandon T c (ConnectionStringErr e)
               | Inr connString \<Rightarrow>
                   go_bind (lab_do (NewCacheClient E I connString 0 0 0)) (\<lambda>client.
                   case client of
                     None \<Rightarrow> abandon T c ClientErr
                   | Some rdb \<Rightarrow> go_ret (Inr \<lparr>tcc_Client = Some rdb, tcc_container = Some c\<rparr>)))))"

definition TestCache_Cleanup :: "('x, 'k) lab_env \<Rightarrow> test_cache option \<Rightarrow> (('x, 'k) lab, unit) go" where
  "TestCache_Cleanup T t =
     (if t = None \<or> tcc_Client (the t) = None then go_ret ()
      else lab_do (boot_call (\<lambda>x. ((), redis_FlushDB T (the (tcc_Client (the t))) x))))"

definition TestCache_Container :: "test_cache \<Rightarrow> container option" where
  "TestCache_Container t = tcc_container t"

definition TestCache_Teardown :: "('x, 'k) lab_env \<Rightarrow> test_cache \<Rightarrow> (('x, 'k) lab, unit) go" where
  "TestCache_Teardown T t =
     go_then
       (case tcc_Client t of None \<Rightarrow> go_ret () | Some c \<Rightarrow> lab_do (go_modify (close_client c)))
       (terminate_optional T (tcc_container t))"

subsection \<open>The broker\<close>

record test_rabbitmq =
  tr_container :: "container option"

definition rabbitmq_request :: run_request where
  "rabbitmq_request =
     \<lparr>rr_image = ''rabbitmq:3.12.11-management-alpine'', rr_settings = [(''admin'', ''testmq''), (''password'', ''testmq'')],
      rr_wait_log = ''Server startup complete'', rr_occurrence = 1, rr_timeout = 60 * Second\<rparr>"

definition SetupTestRabbitMQ :: "('x, 'k) lab_env \<Rightarrow> (('x, 'k) lab, setup_err + test_rabbitmq) go" where
  "SetupTestRabbitMQ T =
     go_bind (run_container T rabbitmq_request) (\<lambda>(container, err).
       go_ret (case err of Some e \<Rightarrow> Inl (ContainerErr e) | None \<Rightarrow> Inr \<lparr>tr_container = container\<rparr>))"

datatype broker_err = NoContainer | CallErr string | ExitErr string

definition on_broker :: "test_rabbitmq \<Rightarrow> 'a \<Rightarrow> ('k \<Rightarrow> 'a \<times> 'k) \<Rightarrow> (('x, 'k) lab, 'a) go" where
  "on_broker t missing f =
     (case tr_container t of None \<Rightarrow> go_panic ''nil pointer dereference'' | Some c \<Rightarrow> on_container c missing f)"

definition AmqpURL :: "('x, 'k) lab_env \<Rightarrow> test_rabbitmq \<Rightarrow> (('x, 'k) lab, broker_err + string) go" where
  "AmqpURL T t = on_broker t (Inl NoContainer)
     (\<lambda>k. (case tc_AmqpURL T k of Inl e \<Rightarrow> Inl (CallErr e) | Inr url \<Rightarrow> Inr url, k))"

definition rabbitmqctl :: "('x, 'k) lab_env \<Rightarrow> test_rabbitmq \<Rightarrow> string \<Rightarrow> (('x, 'k) lab, broker_err option) go" where
  "rabbitmqctl T t cmd = on_broker t (Some NoContainer) (\<lambda>k.
     case tc_Exec T [''rabbitmqctl'', cmd] k of
       ((exitCode, err), k') \<Rightarrow>
         (case err of
            Some e \<Rightarrow> Some (CallErr e)
          | None \<Rightarrow>
              if exitCode \<noteq> 0 then Some (ExitErr (''rabbitmqctl '' @ cmd @ '' exited with code '' @ Itoa exitCode)) else None,
          k'))"

definition StopApp :: "('x, 'k) lab_env \<Rightarrow> test_rabbitmq \<Rightarrow> (('x, 'k) lab, broker_err option) go" where
  "StopApp T t = rabbitmqctl T t ''stop_app''"

definition StartApp :: "('x, 'k) lab_env \<Rightarrow> test_rabbitmq \<Rightarrow> (('x, 'k) lab, broker_err option) go" where
  "StartApp T t = rabbitmqctl T t ''start_app''"

definition container_call :: "('k \<Rightarrow> string option \<times> 'k) \<Rightarrow> test_rabbitmq \<Rightarrow> (('x, 'k) lab, broker_err option) go" where
  "container_call f t = on_broker t (Some NoContainer) (\<lambda>k.
     case f k of (err, k') \<Rightarrow> (map_option CallErr err, k'))"

definition Stop_broker :: "('x, 'k) lab_env \<Rightarrow> test_rabbitmq \<Rightarrow> (('x, 'k) lab, broker_err option) go" where
  "Stop_broker T = container_call (tc_Stop T (1 * Second))"

definition Start_broker :: "('x, 'k) lab_env \<Rightarrow> test_rabbitmq \<Rightarrow> (('x, 'k) lab, broker_err option) go" where
  "Start_broker T = container_call (tc_Start T)"

definition TestRabbitMQ_Teardown :: "('x, 'k) lab_env \<Rightarrow> test_rabbitmq \<Rightarrow> (('x, 'k) lab, unit) go" where
  "TestRabbitMQ_Teardown T t = terminate_optional T (tr_container t)"

section \<open>What a fixture holds and releases\<close>

definition same_connections :: "('x, 'k) lab \<Rightarrow> ('x, 'k) lab \<Rightarrow> bool" where
  "same_connections s s' =
     (bt_pools (lab_boot s') = bt_pools (lab_boot s) \<and> bt_clients (lab_boot s') = bt_clients (lab_boot s)
      \<and> lab_migrators s' = lab_migrators s)"

text \<open>Errors after which a container may be left: the runtime's, of starting or of terminating it.\<close>

fun runtime_err :: "setup_err \<Rightarrow> bool" where
  "runtime_err (ContainerErr e) = True"
| "runtime_err (TerminateErr e) = True"
| "runtime_err _ = False"

text \<open>One container more than before, and the connections of before.\<close>

definition with_container :: "('x, 'k) lab \<Rightarrow> container \<Rightarrow> ('x, 'k) lab \<Rightarrow> bool" where
  "with_container s c s' = ((\<exists>k. lab_containers s' = (lab_containers s)(c \<mapsto> k)) \<and> same_connections s s')"

text \<open>
  The outcome of a set-up that started in state \<open>s\<close>: after an error, and after the teardown of a
  fixture, what was open before is open.
\<close>

definition released ::
  "('x, 'k) lab_env \<Rightarrow> ('x, 'k) lab \<Rightarrow> ('t \<Rightarrow> (('x, 'k) lab, unit) go) \<Rightarrow> ('t \<Rightarrow> container option)
   \<Rightarrow> setup_err + 't \<Rightarrow> ('x, 'k) lab \<Rightarrow> bool" where
  "released T s teardown container res s' =
     (case res of
        Inl e \<Rightarrow> same_connections s s' \<and> (lab_containers s' = lab_containers s \<or> runtime_err e)
      | Inr t \<Rightarrow> wp (teardown t) (\<lambda>_ s''. same_connections s s''
          \<and> (lab_containers s'' = lab_containers s \<or> (\<exists>c. container t = Some c \<and> tc_Terminate T c \<noteq> None))) s')"

lemma wp_lab_do [wp_simps]: "wp (lab_do m) Q s = wp m (\<lambda>x b. Q x (s\<lparr>lab_boot := b\<rparr>)) (lab_boot s)"
  by (auto simp: wp_def lab_do_def split: prod.splits outcome.splits)

lemma wp_Terminate:
  "wp (Terminate T c) Q s = Q (tc_Terminate T c) (if tc_Terminate T c = None then s\<lparr>lab_containers := (lab_containers s)(c := None)\<rparr> else s)"
  by (simp add: wp_def Terminate_def)

lemma abandon_wp:
  assumes "with_container s c s'" and "lab_containers s c = None"
  shows "wp (abandon T c err) (released T s teardown container) s'"
  using assms by (auto simp: abandon_def wp_simps wp_Terminate with_container_def same_connections_def released_def fun_upd_idem
      split: option.splits)

lemma terminate_wp:
  assumes "with_container s c s'" and "lab_containers s c = None"
  shows "wp (terminate_optional T (Some c)) (\<lambda>_ s''. same_connections s s''
    \<and> (lab_containers s'' = lab_containers s \<or> tc_Terminate T c \<noteq> None)) s'"
  using assms by (auto simp: terminate_optional_def wp_simps wp_Terminate with_container_def same_connections_def fun_upd_idem)

lemma run_container_wp:
  assumes "run_law T"
  shows "wp (run_container T req) (\<lambda>(c, err) s'. same_connections s s' \<and> lab_boot s' = lab_boot s
    \<and> (err = None \<longrightarrow> c = Some (lab_next s) \<and> with_container s (lab_next s) s')) s"
proof -
  obtain k err where run: "tc_Run T req = (k, err)" by force
  with assms have "err = None \<Longrightarrow> k \<noteq> None" by (metis run_law_def fst_conv snd_conv)
  with run show ?thesis
    by (cases k; cases err) (auto simp: run_container_def wp_def with_container_def same_connections_def)
qed

lemma runMigrations_wp:
  "with_container s c s' \<Longrightarrow> wp (runMigrations T connString) (\<lambda>_ s''. with_container s c s'') s'"
  by (auto simp: runMigrations_def wp_simps Let_def with_container_def same_connections_def split: option.splits prod.splits)

lemma pool_held:
  assumes "with_container s c s'" and "lab_containers s c = None"
  shows "wp (go_bind (lab_do (NewPostgresPool E I connString)) (\<lambda>pool.
      case pool of None \<Rightarrow> abandon T c PoolErr | Some p \<Rightarrow> go_ret (Inr \<lparr>td_Pool = Some p, td_container = Some c\<rparr>)))
    (released T s (TestDB_Teardown T) TestDB_Container) s'"
  unfolding wp_bind wp_lab_do
proof (rule wp_mono [OF NewPostgresPool_wp], goal_cases)
  case (1 pool b)
  show ?case
  proof (cases pool)
    case None
    with 1 assms show ?thesis by (auto simp: with_container_def same_connections_def intro!: abandon_wp)
  next
    case (Some p)
    let ?s = "s'\<lparr>lab_boot := b\<lparr>bt_pools := remove1 p (bt_pools b)\<rparr>\<rparr>"
    have "with_container s c ?s" using 1 assms(1) Some by (auto simp: with_container_def same_connections_def)
    from terminate_wp [OF this assms(2)] Some show ?thesis
      by (simp add: wp_simps released_def TestDB_Teardown_def TestDB_Container_def)
  qed
qed

lemma migrated_pool_held:
  assumes "with_container s c s'" and "lab_containers s c = None"
  shows "wp (go_bind (runMigrations T connString) (\<lambda>merr.
      case merr of
        Some e \<Rightarrow> abandon T c (MigrationErr e)
      | None \<Rightarrow>
          go_bind (lab_do (NewPostgresPool E I connString)) (\<lambda>pool.
            case pool of None \<Rightarrow> abandon T c PoolErr | Some p \<Rightarrow> go_ret (Inr \<lparr>td_Pool = Some p, td_container = Some c\<rparr>))))
    (released T s (TestDB_Teardown T) TestDB_Container) s'"
  unfolding wp_bind [of "runMigrations T connString"]
  by (rule wp_mono [OF runMigrations_wp [OF assms(1)]])
     (auto split: option.splits intro: abandon_wp [OF _ assms(2)] pool_held [OF _ assms(2)])

lemma client_held:
  assumes "with_container s c s'" and "lab_containers s c = None" and "unused_from_next (lab_boot s')"
  shows "wp (go_bind (lab_do (NewCacheClient E I connString 0 0 0)) (\<lambda>client.
      case client of None \<Rightarrow> abandon T c ClientErr | Some rdb \<Rightarrow> go_ret (Inr \<lparr>tcc_Client = Some rdb, tcc_container = Some c\<rparr>)))
    (released T s (TestCache_Teardown T) TestCache_Container) s'"
  unfolding wp_bind wp_lab_do
proof (rule wp_mono [OF wp_conj [OF NewCacheClient_wp [OF assms(3)] NewCacheClient_frame]], goal_cases)
  case (1 client b)
  show ?case
  proof (cases client)
    case None
    with 1 assms show ?thesis by (auto simp: with_container_def same_connections_def intro!: abandon_wp)
  next
    case (Some rdb)
    let ?s = "s'\<lparr>lab_boot := close_client rdb b\<rparr>"
    have "bt_clients (lab_boot s') rdb = None" using 1 Some assms(3) by (auto simp: unused_from_next_def)
    then have "with_container s c ?s"
      using 1 assms(1) Some by (auto simp: with_container_def same_connections_def close_client_def fun_upd_idem)
    from terminate_wp [OF this assms(2)] Some show ?thesis
      by (simp add: wp_simps released_def TestCache_Teardown_def TestCache_Container_def)
  qed
qed

section \<open>Properties\<close>

text \<open>
  C32: A test fixture releases what it acquires: a set-up of the database, the cache or the broker that
  fails leaves no connection and no migration instance open, and no container unless the container runtime
  itself failed to start or to terminate it; tearing down a fixture that was set up restores the
  connections of before, and its container is gone unless its termination is refused.
\<close>

theorem test_fixtures_are_released:
  assumes "run_law T" and free: "lab_containers s (lab_next s) = None" and "unused_from_next (lab_boot s)"
  shows "wp (SetupTestDB T E I) (released T s (TestDB_Teardown T) TestDB_Container) s
    \<and> wp (SetupTestCache T E I) (released T s (TestCache_Teardown T) TestCache_Container) s
    \<and> wp (SetupTestRabbitMQ T) (released T s (TestRabbitMQ_Teardown T) tr_container) s"
proof (intro conjI)
  note outcome = wp_mono [OF run_container_wp [OF assms(1)]]
  show "wp (SetupTestDB T E I) (released T s (TestDB_Teardown T) TestDB_Container) s"
    unfolding SetupTestDB_def wp_bind [of "run_container T postgres_request"]
    by (rule outcome) (auto simp: wp_ret released_def [of _ _ _ _ "Inl _"] split: option.splits sum.splits
        intro!: abandon_wp free migrated_pool_held)
  show "wp (SetupTestCache T E I) (released T s (TestCache_Teardown T) TestCache_Container) s"
    unfolding SetupTestCache_def wp_bind [of "run_container T redis_request"]
    by (rule outcome) (auto simp: wp_ret released_def [of _ _ _ _ "Inl _"] assms(3) split: option.splits sum.splits
        intro!: abandon_wp free client_held)
  show "wp (SetupTestRabbitMQ T) (released T s (TestRabbitMQ_Teardown T) tr_container) s"
    unfolding SetupTestRabbitMQ_def wp_bind
    by (rule outcome) (auto simp: wp_ret released_def TestRabbitMQ_Teardown_def split: option.splits
        intro!: wp_mono [OF terminate_wp [OF _ free]])
qed

text \<open>A runtime that starts every container; the migrations fail.\<close>

definition demo_lab_env :: "(sim, unit) lab_env" where
  "demo_lab_env =
     \<lparr>tc_Run = (\<lambda>req. (Some (), None)), tc_ConnectionString = (\<lambda>c args. Inr ''redis://c/0''), tc_Terminate = (\<lambda>c. None),
      tc_Exec = (\<lambda>cmd k. ((0, None), k)), tc_Stop = (\<lambda>t k. (None, k)), tc_Start = (\<lambda>k. (None, k)), tc_AmqpURL = (\<lambda>k. Inr ''amqp://c''),
      source_dir = [''src'', ''services'', ''gateway'', ''internal'', ''testutil''], migrate_New = (\<lambda>src url. None),
      migrate_Up = (\<lambda>src url x. (Some (MigrateErr ''dirty''), x)), pg_Exec = (\<lambda>q x. (None, x)), redis_FlushDB = (\<lambda>c x. x)\<rparr>"

definition demo_lab :: "(sim, unit) lab" where
  "demo_lab = \<lparr>lab_boot = demo_boot, lab_containers = Map.empty, lab_next = 0, lab_migrators = 0\<rparr>"

lemma demo_migrationsPath: "migrationsPath (source_dir demo_lab_env) = ''/src/migrations/schema''"
  unfolding demo_lab_env_def by code_simp

theorem test_fixtures_are_released_witness:
  "wp (SetupTestDB demo_lab_env (sim_env False) demo_infra)
     (\<lambda>res s'. res = Inl (MigrationErr ''dirty'') \<and> lab_containers s' = Map.empty \<and> lab_migrators s' = 0) demo_lab"
proof -
  have law: "run_law demo_lab_env" by (simp add: run_law_def demo_lab_env_def)
  have "lab_containers demo_lab (lab_next demo_lab) = None" "unused_from_next (lab_boot demo_lab)"
    using demo_boot_unused by (simp_all add: demo_lab_def)
  note held = conjunct1 [OF test_fixtures_are_released [OF law this, of "sim_env False" demo_infra]]
  have "wp (SetupTestDB demo_lab_env (sim_env False) demo_infra) (\<lambda>res s'. res = Inl (MigrationErr ''dirty'')) demo_lab"
    by (simp add: SetupTestDB_def runMigrations_def run_container_def abandon_def Terminate_def demo_lab_env_def wp_def go_simps
        lab_do_def boot_call_def Let_def)
  from wp_conj [OF this held] show ?thesis
    by (rule wp_mono) (auto simp: released_def same_connections_def demo_lab_def)
qed

end
