(* ===== verification/Analytics_Worker.thy ===== *)
theory Analytics_Worker
  imports Publisher
begin

text \<open>
  The analytics worker: \<^verbatim>\<open>internal/consumer/consumer.go\<close> (batching, flushing, the consume
  loop, the AMQP topology), \<^verbatim>\<open>internal/repository/repository.go\<close> (the bulk insert) and the
  reconnect loop of \<^verbatim>\<open>cmd/worker/main.go\<close>. What the loop's \<^verbatim>\<open>select\<close> picks next
  is an arbitrary sequence of events. The database is a parameter that executes a statement with its
  arguments. The broker's side of acknowledgements follows the AMQP 0-9-1 specification: settling an
  unknown delivery tag is a channel exception, and closing a channel requeues what is unsettled.
\<close>

section \<open>Definitions\<close>

subsection \<open>The bulk insert\<close>

datatype sql_arg = ArgText string | ArgTime gotime

definition placeholder :: "nat \<Rightarrow> string" where
  "placeholder i =
     (let base = i * 4 in
      ''($'' @ Itoa (int (base + 1)) @ '',$'' @ Itoa (int (base + 2)) @ '',$'' @ Itoa (int (base + 3))
      @ '',$'' @ Itoa (int (base + 4)) @ '')'')"

definition event_args :: "click_event \<Rightarrow> sql_arg list" where
  "event_args e = [ArgText (ev_ShortCode e), ArgTime (ev_ClickedAt e), ArgText (ev_IP e), ArgText (ev_Referer e)]"

definition insert_prefix :: string where
  "insert_prefix = ''INSERT INTO analytics (short_code, clicked_at, ip, referer) VALUES ''"

text \<open>
  The worker's world: the database and the broker. An execution is told whether its context has been
  cancelled.
\<close>

record delivery =
  d_tag :: nat
  d_body :: string

record broker =
  br_received :: "delivery list"
  br_unacked :: "delivery list"
  br_acked :: "delivery list"
  br_dead :: "delivery list"
  br_requeued :: "delivery list"
  br_open :: bool

record 'x worker =
  w_db :: 'x
  w_broker :: broker

record 'x worker_env =
  w_decode :: "string \<Rightarrow> click_event option"
  w_exec :: "bool \<Rightarrow> string \<Rightarrow> sql_arg list \<Rightarrow> 'x \<Rightarrow> string option \<times> 'x"

definition w_call :: "('x \<Rightarrow> 'a \<times> 'x) \<Rightarrow> ('x worker, 'a) go" where
  "w_call f = (\<lambda>w. case f (w_db w) of (a, x) \<Rightarrow> (Ret a, w\<lparr>w_db := x\<rparr>))"

definition BulkInsert :: "'x worker_env \<Rightarrow> bool \<Rightarrow> click_event list \<Rightarrow> ('x worker, string option) go" where
  "BulkInsert E ctxErr events =
     (if events = [] then go_ret None
      else
        let placeholders = map placeholder [0 ..< length events];
            args = concat (map event_args events);
            query = insert_prefix @ Join placeholders '', ''
        in w_call (w_exec E ctxErr query args))"

subsection \<open>Settling deliveries\<close>

datatype settlement = Nack (settle_tag: nat) bool bool | Ack (settle_tag: nat) bool

definition close_channel :: "broker \<Rightarrow> broker" where
  "close_channel b = b\<lparr>br_requeued := br_requeued b @ br_unacked b, br_unacked := [], br_open := False\<rparr>"

text \<open>
  A closed channel ignores settlements. \<open>Nack\<close> without requeueing dead-letters the one delivery;
  \<open>Ack\<close> with \<open>multiple\<close> settles everything up to its tag.
\<close>

definition settle :: "settlement \<Rightarrow> broker \<Rightarrow> broker" where
  "settle s b =
     (if \<not> br_open b then b
      else if settle_tag s \<notin> d_tag ` set (br_unacked b) then close_channel b
      else
        (case s of
           Nack tag multiple requeue \<Rightarrow>
             let hit = (\<lambda>d. if multiple then d_tag d \<le> tag else d_tag d = tag) in
             (if requeue
              then b\<lparr>br_requeued := br_requeued b @ filter hit (br_unacked b), br_unacked := filter (\<lambda>d. \<not> hit d) (br_unacked b)\<rparr>
              else b\<lparr>br_dead := br_dead b @ filter hit (br_unacked b), br_unacked := filter (\<lambda>d. \<not> hit d) (br_unacked b)\<rparr>)
         | Ack tag multiple \<Rightarrow>
             let hit = (\<lambda>d. if multiple then d_tag d \<le> tag else d_tag d = tag) in
             b\<lparr>br_acked := br_acked b @ filter hit (br_unacked b), br_unacked := filter (\<lambda>d. \<not> hit d) (br_unacked b)\<rparr>))"

definition w_settle :: "settlement \<Rightarrow> ('x worker, unit) go" where
  "w_settle s = go_modify (\<lambda>w. w\<lparr>w_broker := settle s (w_broker w)\<rparr>)"

text \<open>A delivery reaches the worker; one still in flight on a closed channel is requeued as well.\<close>

definition deliver :: "delivery \<Rightarrow> broker \<Rightarrow> broker" where
  "deliver d b =
     (if br_open b then b\<lparr>br_received := br_received b @ [d], br_unacked := br_unacked b @ [d]\<rparr>
      else b\<lparr>br_received := br_received b @ [d], br_requeued := br_requeued b @ [d]\<rparr>)"

subsection \<open>The consumer\<close>

datatype worker_err = ErrFatal string | AmqpErr string

text \<open>The repository and the logger of the struct are the worker environment.\<close>

record consumer =
  cs_conn :: conn
  cs_batchSize :: int
  cs_flushInterval :: int

definition consumer_New :: "conn \<Rightarrow> int \<Rightarrow> int \<Rightarrow> consumer" where
  "consumer_New conn batchSize flushInterval = \<lparr>cs_conn = conn, cs_batchSize = batchSize, cs_flushInterval = flushInterval\<rparr>"

fun flush_decode :: "'x worker_env \<Rightarrow> delivery list \<Rightarrow> click_event list \<Rightarrow> ('x worker, click_event list) go" where
  "flush_decode E [] events = go_ret events"
| "flush_decode E (d # ds) events =
     (case w_decode E (d_body d) of
        None \<Rightarrow> go_then (w_settle (Nack (d_tag d) False False)) (flush_decode E ds events)
      | Some e \<Rightarrow> flush_decode E ds (events @ [e]))"

definition flush :: "'x worker_env \<Rightarrow> bool \<Rightarrow> delivery list \<Rightarrow> ('x worker, worker_err option) go" where
  "flush E ctxErr deliveries =
     go_bind (flush_decode E deliveries []) (\<lambda>events.
       if events = [] then go_ret None
       else go_bind (BulkInsert E ctxErr events) (\<lambda>err.
         case err of
           Some e \<Rightarrow> go_ret (Some (ErrFatal e))
         | None \<Rightarrow> go_then (w_settle (Ack (d_tag (last deliveries)) True)) (go_ret None)))"

text \<open>
  What the select statement picks, with whether the context has been cancelled by then; and where the
  loop is after a sequence of picks.
\<close>

datatype run_event = CtxDone | Delivered delivery bool | DeliveriesClosed | Tick bool

datatype run_result = Running "delivery list" | RunReturned "worker_err option"

fun run_loop :: "'x worker_env \<Rightarrow> int \<Rightarrow> delivery list \<Rightarrow> run_event list \<Rightarrow> ('x worker, run_result) go" where
  "run_loop E batchSize batch [] = go_ret (Running batch)"
| "run_loop E batchSize batch (CtxDone # evs) =
     (if batch \<noteq> [] then go_bind (flush E True batch) (\<lambda>err. go_ret (RunReturned err))
      else go_ret (RunReturned None))"
| "run_loop E batchSize batch (Delivered d ctxErr # evs) =
     go_then (go_modify (\<lambda>w. w\<lparr>w_broker := deliver d (w_broker w)\<rparr>))
       (let batch' = batch @ [d] in
        if batchSize \<le> int (length batch') then
          go_bind (flush E ctxErr batch') (\<lambda>err.
            case err of Some e \<Rightarrow> go_ret (RunReturned (Some e)) | None \<Rightarrow> run_loop E batchSize [] evs)
        else run_loop E batchSize batch' evs)"
| "run_loop E batchSize batch (DeliveriesClosed # evs) = go_ret (RunReturned None)"
| "run_loop E batchSize batch (Tick ctxErr # evs) =
     (if batch \<noteq> [] then
        go_bind (flush E ctxErr batch) (\<lambda>err.
          case err of Some e \<Rightarrow> go_ret (RunReturned (Some e)) | None \<Rightarrow> run_loop E batchSize [] evs)
      else run_loop E batchSize batch evs)"

text \<open>
  \<^verbatim>\<open>Run\<close> opens its channel, sets the prefetch count and subscribes before it loops; a
  ticker needs a positive interval.
\<close>

definition prefetch :: "int \<Rightarrow> int" where
  "prefetch batchSize = wrap64 (batchSize * 2)"

definition Run ::
  "'x worker_env \<Rightarrow> consumer \<Rightarrow> string option \<Rightarrow> (int \<Rightarrow> string option) \<Rightarrow> string option \<Rightarrow> run_event list
   \<Rightarrow> ('x worker, run_result) go" where
  "Run E c channelErr qos consumeErr evs =
     (case channelErr of
        Some e \<Rightarrow> go_ret (RunReturned (Some (AmqpErr e)))
      | None \<Rightarrow>
          (case qos (prefetch (cs_batchSize c)) of
             Some e \<Rightarrow> go_ret (RunReturned (Some (AmqpErr e)))
           | None \<Rightarrow>
               (case consumeErr of
                  Some e \<Rightarrow> go_ret (RunReturned (Some (AmqpErr e)))
                | None \<Rightarrow>
                    if cs_flushInterval c \<le> 0 then go_panic ''non-positive interval for NewTicker''
                    else run_loop E (cs_batchSize c) [] evs)))"

subsection \<open>Topology\<close>

definition queueName :: string where "queueName = ''analytics.clicks''"
definition dlqName :: string where "dlqName = ''analytics.clicks.dlq''"
definition worker_exchangeName :: string where "worker_exchangeName = ''analytics''"
definition worker_routingKey :: string where "worker_routingKey = ''analytics.clicks''"

datatype topology_op =
    ExchangeDeclare string string bool
  | QueueDeclare string bool "(string \<times> string) list"
  | QueueBind string string string

fun declare_all :: "(topology_op \<Rightarrow> string option) \<Rightarrow> topology_op list \<Rightarrow> topology_op list \<times> string option" where
  "declare_all broker [] = ([], None)"
| "declare_all broker (op # ops) =
     (case broker op of
        Some e \<Rightarrow> ([op], Some e)
      | None \<Rightarrow> (case declare_all broker ops of (sent, err) \<Rightarrow> (op # sent, err)))"

definition topology :: "topology_op list" where
  "topology =
     [ExchangeDeclare worker_exchangeName ''topic'' True,
      QueueDeclare dlqName True [],
      QueueDeclare queueName True
        [(''x-dead-letter-exchange'', ''''), (''x-dead-letter-routing-key'', dlqName), (''x-queue-type'', ''quorum'')],
      QueueBind queueName worker_routingKey worker_exchangeName]"

definition Setup :: "string option \<Rightarrow> (topology_op \<Rightarrow> string option) \<Rightarrow> topology_op list \<times> string option" where
  "Setup channelErr broker = (case channelErr of Some e \<Rightarrow> ([], Some e) | None \<Rightarrow> declare_all broker topology)"

subsection \<open>The reconnect loop\<close>

definition worker_initialBackoff :: int where "worker_initialBackoff = Second"
definition worker_maxBackoff :: int where "worker_maxBackoff = 30 * Second"

definition worker_next_backoff :: "int \<Rightarrow> int" where
  "worker_next_backoff backoff = (if backoff < worker_maxBackoff then backoff * 2 else backoff)"

text \<open>
  \<^verbatim>\<open>dialWithRetry\<close> over the outcomes of its attempts: a connection, or a failure with the
  context cancelled or not during the wait. \<open>Inl\<close> holds the delays waited so far when the
  attempts run out or the context ends.
\<close>

datatype dial_attempt = DialOk conn | DialFailed bool

fun dialWithRetry :: "int \<Rightarrow> dial_attempt list \<Rightarrow> (int list \<times> bool) + (int list \<times> conn)" where
  "dialWithRetry backoff [] = Inl ([], False)"
| "dialWithRetry backoff (DialOk c # rest) = Inr ([], c)"
| "dialWithRetry backoff (DialFailed ctxDone # rest) =
     (if ctxDone then Inl ([], True)
      else (case dialWithRetry (worker_next_backoff backoff) rest of
              Inl (waits, done_flag) \<Rightarrow> Inl (backoff # waits, done_flag)
            | Inr (waits, c) \<Rightarrow> Inr (backoff # waits, c)))"

section \<open>The statement of the bulk insert\<close>

text \<open>
  A multi-row insert by its parameter numbers: the text of its tuples, and the row a tuple denotes
  under positional arguments (parameter \<open>n\<close> is argument \<open>n - 1\<close>).
\<close>

type_synonym tuple_nums = "nat \<times> nat \<times> nat \<times> nat"

fun tuple_text :: "tuple_nums \<Rightarrow> string" where
  "tuple_text (a, b, c, d) =
     ''($'' @ nat_digits a @ '',$'' @ nat_digits b @ '',$'' @ nat_digits c @ '',$'' @ nat_digits d @ '')''"

definition insert_text :: "tuple_nums list \<Rightarrow> string" where
  "insert_text nums = insert_prefix @ Join (map tuple_text nums) '', ''"

fun row_of :: "sql_arg list \<Rightarrow> tuple_nums \<Rightarrow> click_event option" where
  "row_of args (a, b, c, d) =
     (case (args ! (a - 1), args ! (b - 1), args ! (c - 1), args ! (d - 1)) of
        (ArgText code, ArgTime t, ArgText ip, ArgText referer) \<Rightarrow>
          Some \<lparr>ev_ShortCode = code, ev_ClickedAt = t, ev_IP = ip, ev_Referer = referer\<rparr>
      | _ \<Rightarrow> None)"

definition bulk_nums :: "nat \<Rightarrow> tuple_nums list" where
  "bulk_nums n = map (\<lambda>i. (4 * i + 1, 4 * i + 2, 4 * i + 3, 4 * i + 4)) [0 ..< n]"

lemma placeholder_text: "placeholder i = tuple_text (4 * i + 1, 4 * i + 2, 4 * i + 3, 4 * i + 4)"
  by (simp add: placeholder_def Let_def Itoa_def mult.commute nat_add_distrib)

lemma bulk_query: "insert_prefix @ Join (map placeholder [0 ..< n]) '', '' = insert_text (bulk_nums n)"
  by (simp add: insert_text_def bulk_nums_def comp_def placeholder_text [abs_def] del: tuple_text.simps)

lemma length_event_args [simp]: "length (event_args e) = 4"
  by (simp add: event_args_def)

lemma bulk_args_length: "length (concat (map event_args events)) = 4 * length events"
  by (induction events) simp_all

lemma bulk_args_nth:
  "i < length events \<Longrightarrow> j < 4 \<Longrightarrow> concat (map event_args events) ! (4 * i + j) = event_args (events ! i) ! j"
proof (induction events arbitrary: i)
  case (Cons e es)
  then show ?case by (cases i) (simp_all add: nth_append add.commute add.left_commute)
qed simp

lemma bulk_rows: "map (row_of (concat (map event_args events))) (bulk_nums (length events)) = map Some events"
proof (rule nth_equalityI)
  fix i
  assume "i < length (map (row_of (concat (map event_args events))) (bulk_nums (length events)))"
  then have i: "i < length events" by (simp add: bulk_nums_def)
  have "concat (map event_args events) ! (4 * i + 0) = ArgText (ev_ShortCode (events ! i))"
    "concat (map event_args events) ! (4 * i + 1) = ArgTime (ev_ClickedAt (events ! i))"
    "concat (map event_args events) ! (4 * i + 2) = ArgText (ev_IP (events ! i))"
    "concat (map event_args events) ! (4 * i + 3) = ArgText (ev_Referer (events ! i))"
    using i by (simp_all only: bulk_args_nth) (simp_all add: event_args_def)
  with i show "map (row_of (concat (map event_args events))) (bulk_nums (length events)) ! i = map Some events ! i"
    by (simp add: bulk_nums_def add.commute [of 3])
qed (simp add: bulk_nums_def)

subsection \<open>The numbers can be read off the text\<close>

definition is_digit :: "char \<Rightarrow> bool" where
  "is_digit c = (48 \<le> (of_char c :: nat) \<and> (of_char c :: nat) \<le> 57)"

fun digit_runs :: "string \<Rightarrow> string \<Rightarrow> string list" where
  "digit_runs acc [] = (if acc = [] then [] else [acc])"
| "digit_runs acc (c # cs) =
     (if is_digit c then digit_runs (acc @ [c]) cs
      else (if acc = [] then [] else [acc]) @ digit_runs [] cs)"

lemma digit_runs_digits: "list_all is_digit ds \<Longrightarrow> digit_runs acc (ds @ cs) = digit_runs (acc @ ds) cs"
  by (induction ds arbitrary: acc) simp_all

lemma nat_digits_all: "list_all is_digit (nat_digits n)"
  unfolding list_all_iff using nat_digits_are_digits by (fastforce simp: is_digit_def of_char_digit)

lemma digit_runs_number: "\<not> is_digit c \<Longrightarrow> digit_runs [] (nat_digits n @ c # cs) = nat_digits n # digit_runs [] cs"
  by (simp add: digit_runs_digits nat_digits_all nat_digits_nonempty)

lemma digit_runs_tuple:
  "digit_runs [] (tuple_text (a, b, c, d) @ cs)
     = nat_digits a # nat_digits b # nat_digits c # nat_digits d # digit_runs [] cs"
proof -
  have punct: "\<not> is_digit (CHR ''('')" "\<not> is_digit (CHR ''$'')" "\<not> is_digit (CHR '','')" "\<not> is_digit (CHR '')'')"
    by (simp_all add: is_digit_def)
  show ?thesis by (simp add: punct digit_runs_number)
qed

fun tuple_numbers :: "tuple_nums \<Rightarrow> nat list" where
  "tuple_numbers (a, b, c, d) = [a, b, c, d]"

lemma digit_runs_tuples:
  "digit_runs [] (Join (map tuple_text nums) '', '') = map nat_digits (concat (map tuple_numbers nums))"
proof (induction nums)
  case (Cons t nums)
  obtain a b c d where t: "t = (a, b, c, d)" by (cases t)
  have sep: "\<not> is_digit (CHR '','')" "\<not> is_digit (CHR '' '')" by (simp_all add: is_digit_def)
  show ?case
  proof (cases nums)
    case Nil
    then show ?thesis using digit_runs_tuple [of a b c d "[]"] by (simp add: t del: tuple_text.simps)
  next
    case (Cons u us)
    then have j: "Join (map tuple_text (t # nums)) '', '' = tuple_text t @ '', '' @ Join (map tuple_text nums) '', ''"
      by simp
    show ?thesis unfolding j using Cons.IH by (simp add: t digit_runs_tuple sep del: tuple_text.simps)
  qed
qed simp

lemma tuple_numbers_inj: "concat (map tuple_numbers ns) = concat (map tuple_numbers ms) \<Longrightarrow> ns = ms"
proof (induction ns arbitrary: ms)
  case (Cons n ns)
  then show ?case by (cases n; cases ms; cases "hd ms") auto
next
  case Nil
  then show ?case by (cases ms; cases "hd ms") auto
qed

lemma insert_text_inj: "insert_text ns = insert_text ms \<Longrightarrow> ns = ms"
proof -
  assume "insert_text ns = insert_text ms"
  then have "map nat_digits (concat (map tuple_numbers ns)) = map nat_digits (concat (map tuple_numbers ms))"
    unfolding digit_runs_tuples [symmetric] by (simp add: insert_text_def)
  then have "concat (map tuple_numbers ns) = concat (map tuple_numbers ms)"
    by (rule map_injective) (auto intro: injI nat_digits_inj)
  then show "ns = ms" by (rule tuple_numbers_inj)
qed

section \<open>What the worker relies on, and what it keeps\<close>

definition stored :: "click_event \<Rightarrow> click_event" where
  "stored e = e\<lparr>ev_ClickedAt := pg_micros (ev_ClickedAt e)\<rparr>"

text \<open>
  PostgreSQL executes a multi-row insert into the table as a whole or not at all; nothing is executed
  with a cancelled context.
\<close>

definition exec_law :: "'x worker_env \<Rightarrow> ('x \<Rightarrow> click_event list) \<Rightarrow> bool" where
  "exec_law E tbl =
     (\<forall>ctxErr nums args x r x'. w_exec E ctxErr (insert_text nums) args x = (r, x') \<longrightarrow>
        (case r of
           Some e \<Rightarrow> tbl x' = tbl x
         | None \<Rightarrow> \<not> ctxErr \<and> (\<exists>rows. map (row_of args) nums = map Some rows \<and> tbl x' = tbl x @ map stored rows)))"

lemma wp_eval: "m w = (Ret x, w') \<Longrightarrow> wp m Q w = Q x w'"
  by (simp add: wp_def)

lemma wp_w_call [wp_simps]: "wp (w_call f) Q w = (case f (w_db w) of (a, x) \<Rightarrow> Q a (w\<lparr>w_db := x\<rparr>))"
  by (simp add: wp_def w_call_def split: prod.splits)

lemma wp_w_settle [wp_simps]: "wp (w_settle s) Q w = Q () (w\<lparr>w_broker := settle s (w_broker w)\<rparr>)"
  by (simp add: w_settle_def wp_simps)

lemma BulkInsert_wp:
  assumes "exec_law E tbl" and "events \<noteq> []"
  shows "wp (BulkInsert E ctxErr events)
    (\<lambda>err w'. w_broker w' = w_broker w \<and>
       (if err = None then \<not> ctxErr \<and> tbl (w_db w') = tbl (w_db w) @ map stored events
        else tbl (w_db w') = tbl (w_db w))) w"
proof -
  let ?args = "concat (map event_args events)"
  obtain r x where x: "w_exec E ctxErr (insert_text (bulk_nums (length events))) ?args (w_db w) = (r, x)" by force
  have "rows = events" if "map (row_of ?args) (bulk_nums (length events)) = map Some rows" for rows
    using that unfolding bulk_rows by (metis list.inj_map_strong option.inject)
  with assms(1) x have "case r of Some e \<Rightarrow> tbl x = tbl (w_db w)
     | None \<Rightarrow> \<not> ctxErr \<and> tbl x = tbl (w_db w) @ map stored events"
    unfolding exec_law_def by (cases r) (fastforce split: option.splits)+
  with assms(2) x show ?thesis
    by (auto simp: BulkInsert_def Let_def bulk_query wp_simps split: option.splits)
qed

abbreviation decoded :: "'x worker_env \<Rightarrow> delivery list \<Rightarrow> click_event list" where
  "decoded E ds \<equiv> List.map_filter (\<lambda>d. w_decode E (d_body d)) ds"

abbreviation malformed :: "'x worker_env \<Rightarrow> delivery \<Rightarrow> bool" where
  "malformed E d \<equiv> w_decode E (d_body d) = None"

definition nack_all :: "delivery list \<Rightarrow> broker \<Rightarrow> broker" where
  "nack_all ds b = fold (\<lambda>d. settle (Nack (d_tag d) False False)) ds b"

lemma flush_decode_run:
  "flush_decode E ds events w
     = (Ret (events @ decoded E ds), w\<lparr>w_broker := nack_all (filter (malformed E) ds) (w_broker w)\<rparr>)"
proof (induction ds arbitrary: events w)
  case Nil
  then show ?case by (simp add: go_simps nack_all_def map_filter_simps)
next
  case (Cons d ds)
  then show ?case
    by (cases "w_decode E (d_body d)") (simp_all add: go_simps nack_all_def map_filter_simps w_settle_def)
qed

lemma filter_key: "distinct (map f xs) \<Longrightarrow> x \<in> set xs \<Longrightarrow> filter (\<lambda>y. f y = f x) xs = [x]"
proof (induction xs)
  case (Cons y ys)
  then show ?case by (cases "x = y") (auto simp: filter_empty_conv image_iff)
qed simp

lemma nack_all_open:
  assumes "br_open b" and "distinct (map d_tag (br_unacked b))" and "distinct ds" and "set ds \<subseteq> set (br_unacked b)"
  shows "nack_all ds b = b\<lparr>br_dead := br_dead b @ ds, br_unacked := filter (\<lambda>d. d \<notin> set ds) (br_unacked b)\<rparr>"
  using assms
proof (induction ds arbitrary: b)
  case Nil
  then show ?case by (simp add: nack_all_def)
next
  case (Cons d ds)
  from Cons.prems have d: "d \<in> set (br_unacked b)" by simp
  have only: "e = d" if "e \<in> set (br_unacked b)" "d_tag e = d_tag d" for e
    using that d Cons.prems(2) by (auto simp: distinct_map dest: inj_onD)
  have hit: "filter (\<lambda>e. d_tag e = d_tag d) (br_unacked b) = [d]"
    by (rule filter_key [OF Cons.prems(2) d])
  have rest: "filter (\<lambda>e. d_tag e \<noteq> d_tag d) (br_unacked b) = filter (\<lambda>e. e \<noteq> d) (br_unacked b)"
    using only by (intro filter_cong) auto
  let ?b = "b\<lparr>br_dead := br_dead b @ [d], br_unacked := filter (\<lambda>e. e \<noteq> d) (br_unacked b)\<rparr>"
  have step: "settle (Nack (d_tag d) False False) b = ?b"
    using Cons.prems(1) d hit rest by (auto simp: settle_def Let_def)
  have "nack_all (d # ds) b = nack_all ds ?b" by (simp add: nack_all_def step)
  also have "\<dots> = ?b\<lparr>br_dead := br_dead ?b @ ds, br_unacked := filter (\<lambda>e. e \<notin> set ds) (br_unacked ?b)\<rparr>"
    using Cons.prems by (intro Cons.IH) (auto simp: distinct_map_filter)
  finally show ?case by (simp add: conj_commute)
qed

lemma nack_all_closed: "\<not> br_open b \<Longrightarrow> nack_all ds b = b"
  by (induction ds) (simp_all add: nack_all_def settle_def)

text \<open>
  Nothing is lost: every delivery received is acknowledged with its event in the table, or
  dead-lettered and malformed, or still unsettled, or back in the queue.
\<close>

definition no_loss :: "'x worker_env \<Rightarrow> click_event list \<Rightarrow> broker \<Rightarrow> bool" where
  "no_loss E stored_rows b =
     (set (br_received b) \<subseteq> set (br_acked b) \<union> set (br_dead b) \<union> set (br_unacked b) \<union> set (br_requeued b)
      \<and> (\<forall>d \<in> set (br_acked b). \<exists>e. w_decode E (d_body d) = Some e \<and> stored e \<in> set stored_rows)
      \<and> (\<forall>d \<in> set (br_dead b). malformed E d))"

definition run_inv :: "'x worker_env \<Rightarrow> ('x \<Rightarrow> click_event list) \<Rightarrow> delivery list \<Rightarrow> 'x worker \<Rightarrow> bool" where
  "run_inv E tbl batch w =
     (no_loss E (tbl (w_db w)) (w_broker w)
      \<and> br_unacked (w_broker w) = (if br_open (w_broker w) then batch else []))"

lemma no_loss_more: "no_loss E stored_rows b \<Longrightarrow> no_loss E (stored_rows @ new) b"
  by (fastforce simp: no_loss_def)

lemma decoded_set: "e \<in> set (decoded E ds) \<longleftrightarrow> (\<exists>d \<in> set ds. w_decode E (d_body d) = Some e)"
  by (induction ds) (auto simp: map_filter_simps split: option.splits)

lemma decoded_empty: "decoded E ds = [] \<longleftrightarrow> (\<forall>d \<in> set ds. malformed E d)"
  by (induction ds) (auto simp: map_filter_simps split: option.splits)

text \<open>After the malformed deliveries of a batch have been rejected.\<close>

definition after_nacks :: "'x worker_env \<Rightarrow> delivery list \<Rightarrow> broker \<Rightarrow> broker" where
  "after_nacks E ds b =
     (if br_open b then b\<lparr>br_dead := br_dead b @ filter (malformed E) ds, br_unacked := filter (\<lambda>d. \<not> malformed E d) ds\<rparr>
      else b)"

lemma nack_batch:
  assumes "br_unacked b = (if br_open b then ds else [])" and "distinct (map d_tag ds)"
  shows "nack_all (filter (malformed E) ds) b = after_nacks E ds b"
proof (cases "br_open b")
  case True
  with assms have "nack_all (filter (malformed E) ds) b
      = b\<lparr>br_dead := br_dead b @ filter (malformed E) ds, br_unacked := filter (\<lambda>d. d \<notin> set (filter (malformed E) ds)) ds\<rparr>"
    using nack_all_open [of b "filter (malformed E) ds"] by (auto simp: distinct_map)
  moreover have "filter (\<lambda>d. d \<notin> set (filter (malformed E) ds)) ds = filter (\<lambda>d. \<not> malformed E d) ds"
    by (intro filter_cong) auto
  ultimately show ?thesis using True by (simp add: after_nacks_def)
qed (simp add: nack_all_closed after_nacks_def)

lemma after_nacks_no_loss:
  assumes "no_loss E stored_rows b" and "br_unacked b = (if br_open b then ds else [])"
  shows "no_loss E stored_rows (after_nacks E ds b)"
  using assms by (auto simp: no_loss_def after_nacks_def split: if_splits)

text \<open>The acknowledgement of a batch whose well-formed events are in the table.\<close>

lemma ack_batch:
  assumes "no_loss E stored_rows (after_nacks E ds b)" and "sorted_wrt (<) (map d_tag ds)" and "ds \<noteq> []"
    and "br_unacked b = (if br_open b then ds else [])" and "stored ` set (decoded E ds) \<subseteq> set stored_rows"
  shows "no_loss E stored_rows (settle (Ack (d_tag (last ds)) True) (after_nacks E ds b))
    \<and> br_unacked (settle (Ack (d_tag (last ds)) True) (after_nacks E ds b)) = []"
proof (cases "br_open b")
  case False
  with assms show ?thesis by (simp add: after_nacks_def settle_def)
next
  case True
  let ?b = "after_nacks E ds b"
  have un: "br_unacked ?b = filter (\<lambda>d. \<not> malformed E d) ds" and op: "br_open ?b"
    using True by (simp_all add: after_nacks_def)
  have "d_tag d \<le> d_tag (last ds)" if "d \<in> set ds" for d
    using that assms(2,3) by (induction ds) (auto simp: less_imp_le)
  then have "\<forall>d \<in> set (br_unacked ?b). d_tag d \<le> d_tag (last ds)" by (simp add: un)
  then have all: "filter (\<lambda>d. d_tag d \<le> d_tag (last ds)) (br_unacked ?b) = br_unacked ?b"
    "filter (\<lambda>d. \<not> d_tag d \<le> d_tag (last ds)) (br_unacked ?b) = []"
    by (simp_all add: filter_empty_conv)
  have ok: "\<exists>e. w_decode E (d_body d) = Some e \<and> stored e \<in> set stored_rows" if "d \<in> set (br_unacked ?b)" for d
    using that assms(5) by (auto simp: un decoded_set image_subset_iff)
  show ?thesis
    using assms(1) op all ok by (auto simp: settle_def Let_def close_channel_def no_loss_def)
qed

lemma flush_wp:
  assumes "exec_law E tbl" and "run_inv E tbl ds w" and "sorted_wrt (<) (map d_tag ds)" and "ds \<noteq> []"
  shows "wp (flush E ctxErr ds)
    (\<lambda>err w'. no_loss E (tbl (w_db w')) (w_broker w') \<and> (err = None \<longrightarrow> run_inv E tbl [] w')) w"
proof -
  let ?b = "after_nacks E ds (w_broker w)"
  have un: "br_unacked (w_broker w) = (if br_open (w_broker w) then ds else [])"
    and nl: "no_loss E (tbl (w_db w)) (w_broker w)" using assms(2) by (simp_all add: run_inv_def)
  have "distinct (map d_tag ds)" using assms(3) by (simp only: strict_sorted_iff)
  then have dec: "flush_decode E ds [] w = (Ret (decoded E ds), w\<lparr>w_broker := ?b\<rparr>)"
    by (simp add: flush_decode_run nack_batch [OF un])
  note nl' = after_nacks_no_loss [OF nl un]
  show ?thesis
  proof (cases "decoded E ds = []")
    case True
    then have "filter (\<lambda>d. \<not> malformed E d) ds = []" by (simp add: decoded_empty filter_empty_conv)
    then have "br_unacked ?b = []" using un by (simp add: after_nacks_def)
    with True dec nl' show ?thesis by (simp add: flush_def wp_def go_simps run_inv_def)
  next
    case False
    have "wp (BulkInsert E ctxErr (decoded E ds)) (\<lambda>err. wp (case err of
         Some e \<Rightarrow> go_ret (Some (ErrFatal e))
       | None \<Rightarrow> go_then (w_settle (Ack (d_tag (last ds)) True)) (go_ret None))
       (\<lambda>err w'. no_loss E (tbl (w_db w')) (w_broker w') \<and> (err = None \<longrightarrow> run_inv E tbl [] w'))) (w\<lparr>w_broker := ?b\<rparr>)"
    proof (rule wp_mono [OF BulkInsert_wp [OF assms(1) False]], goal_cases)
      case (1 err w')
      then show ?case
        using nl' ack_batch [OF no_loss_more [OF nl'] assms(3,4) un, of "map stored (decoded E ds)"]
        by (auto simp: wp_simps run_inv_def split: option.splits)
    qed
    with False show ?thesis unfolding flush_def
      by (simp add: wp_bind wp_eval [of "flush_decode E ds []", OF dec])
  qed
qed

text \<open>The deliveries in a sequence of events.\<close>

fun deliveries_of :: "run_event list \<Rightarrow> delivery list" where
  "deliveries_of [] = []"
| "deliveries_of (Delivered d c # evs) = d # deliveries_of evs"
| "deliveries_of (ev # evs) = deliveries_of evs"

lemma deliver_inv: "run_inv E tbl batch w \<Longrightarrow> run_inv E tbl (batch @ [d]) (w\<lparr>w_broker := deliver d (w_broker w)\<rparr>)"
  by (auto simp: run_inv_def deliver_def no_loss_def)

definition run_post :: "'x worker_env \<Rightarrow> ('x \<Rightarrow> click_event list) \<Rightarrow> int \<Rightarrow> run_result \<Rightarrow> 'x worker \<Rightarrow> bool" where
  "run_post E tbl batchSize res w' =
     (no_loss E (tbl (w_db w')) (w_broker w')
      \<and> (\<forall>b. res = Running b \<longrightarrow> run_inv E tbl b w' \<and> int (length b) < max 1 batchSize))"

lemma run_post_returned: "run_post E tbl batchSize (RunReturned err) w' \<longleftrightarrow> no_loss E (tbl (w_db w')) (w_broker w')"
  by (simp add: run_post_def)

lemma run_loop_wp:
  assumes "exec_law E tbl" and "run_inv E tbl batch w"
    and "sorted_wrt (<) (map d_tag (batch @ deliveries_of evs))" and "int (length batch) < max 1 batchSize"
  shows "wp (run_loop E batchSize batch evs) (run_post E tbl batchSize) w"
  using assms(2-4)
proof (induction evs arbitrary: batch w)
  case Nil
  then show ?case by (simp add: wp_simps run_post_def run_inv_def)
next
  case (Cons ev evs)
  have sorted: "sorted_wrt (<) (map d_tag batch)" using Cons.prems(2) by (simp add: sorted_wrt_append)
  have flushed: "wp (flush E c ds) (\<lambda>err. wp (case err of Some e \<Rightarrow> go_ret (RunReturned (Some e))
       | None \<Rightarrow> run_loop E batchSize [] evs) (run_post E tbl batchSize)) w1"
    if "run_inv E tbl ds w1" "sorted_wrt (<) (map d_tag (ds @ deliveries_of evs))" "ds \<noteq> []" for c ds w1
  proof -
    have "sorted_wrt (<) (map d_tag ds)" "sorted_wrt (<) (map d_tag (deliveries_of evs))"
      using that(2) by (simp_all add: sorted_wrt_append)
    then show ?thesis
      using Cons.IH [of "[]"] by (intro wp_mono [OF flush_wp [OF assms(1) that(1) _ that(3)]])
        (auto simp: wp_simps run_post_returned split: option.splits)
  qed
  show ?case
  proof (cases ev)
    case CtxDone
    have "wp (flush E True batch) (\<lambda>err w'. run_post E tbl batchSize (RunReturned err) w') w" if "batch \<noteq> []"
      by (rule wp_mono [OF flush_wp [OF assms(1) Cons.prems(1) sorted that]]) (simp add: run_post_def)
    with Cons.prems(1) CtxDone show ?thesis by (auto simp: wp_simps run_post_def run_inv_def)
  next
    case (Delivered d c)
    let ?w = "w\<lparr>w_broker := deliver d (w_broker w)\<rparr>"
    have inv: "run_inv E tbl (batch @ [d]) ?w" by (rule deliver_inv [OF Cons.prems(1)])
    moreover have "sorted_wrt (<) (map d_tag ((batch @ [d]) @ deliveries_of evs))"
      using Cons.prems(2) Delivered by simp
    ultimately show ?thesis
      using flushed [of "batch @ [d]" ?w c] Cons.IH [of "batch @ [d]" ?w] Delivered
      by (simp add: wp_simps Let_def)
  next
    case DeliveriesClosed
    with Cons.prems(1) show ?thesis by (simp add: wp_simps run_post_def run_inv_def)
  next
    case (Tick c)
    with Cons.prems flushed [of batch w c] Cons.IH [of batch w] show ?thesis
      by (cases "batch = []") (simp_all add: wp_simps)
  qed
qed

section \<open>Properties\<close>

definition fresh_broker :: broker where
  "fresh_broker = \<lparr>br_received = [], br_unacked = [], br_acked = [], br_dead = [], br_requeued = [], br_open = True\<rparr>"

text \<open>
  A database for the concrete inputs: it holds the list of stored events and executes exactly the
  statements of the bulk insert. A body is a message when it is not \<open>bad\<close>.
\<close>

fun chunk_events :: "sql_arg list \<Rightarrow> click_event list option" where
  "chunk_events [] = Some []"
| "chunk_events (ArgText code # ArgTime t # ArgText ip # ArgText referer # args) =
     map_option ((#) \<lparr>ev_ShortCode = code, ev_ClickedAt = t, ev_IP = ip, ev_Referer = referer\<rparr>) (chunk_events args)"
| "chunk_events _ = None"

definition demo_event :: "string \<Rightarrow> click_event" where
  "demo_event code = \<lparr>ev_ShortCode = code, ev_ClickedAt = Time 0 0, ev_IP = '''', ev_Referer = ''''\<rparr>"

definition demo_worker_env :: "click_event list worker_env" where
  "demo_worker_env =
     \<lparr>w_decode = (\<lambda>body. if body = ''bad'' then None else Some (demo_event body)),
      w_exec = (\<lambda>ctxErr query args x.
        if ctxErr then (Some ''context canceled'', x)
        else (case chunk_events args of
            None \<Rightarrow> (Some ''invalid arguments'', x)
          | Some events \<Rightarrow>
              if query = insert_text (bulk_nums (length events)) then (None, x @ map stored events)
              else (Some ''syntax error'', x)))\<rparr>"

lemma chunk_events_args: "chunk_events args = Some events \<Longrightarrow> args = concat (map event_args events)"
  by (induction args arbitrary: events rule: chunk_events.induct) (auto simp: event_args_def)

lemma demo_exec_law: "exec_law demo_worker_env (\<lambda>x. x)"
proof -
  have "case r of Some e \<Rightarrow> x' = x
     | None \<Rightarrow> \<not> ctxErr \<and> (\<exists>rws. map (row_of args) nums = map Some rws \<and> x' = x @ map stored rws)"
    if run: "w_exec demo_worker_env ctxErr (insert_text nums) args x = (r, x')" for ctxErr nums args x r x'
  proof (cases "chunk_events args")
    case None
    with run show ?thesis by (auto simp: demo_worker_env_def split: if_splits)
  next
    case (Some events)
    have args: "args = concat (map event_args events)" by (rule chunk_events_args [OF Some])
    have "map (row_of args) nums = map Some events" if "insert_text nums = insert_text (bulk_nums (length events))"
      using insert_text_inj [OF that] bulk_rows [of events] by (simp add: args)
    with run Some show ?thesis by (auto simp: demo_worker_env_def split: if_splits)
  qed
  then show ?thesis unfolding exec_law_def by blast
qed

definition demo_delivery :: "nat \<Rightarrow> string \<Rightarrow> delivery" where
  "demo_delivery tag body = \<lparr>d_tag = tag, d_body = body\<rparr>"

text \<open>
  C23: The bulk insert numbers its parameters from 1 without gap or repetition, and under positional
  binding every tuple denotes exactly its event: short code, time, address and referrer of event
  \<open>i\<close> are arguments \<open>4 i + 1\<close> to \<open>4 i + 4\<close>.
\<close>

theorem BulkInsert_statement:
  assumes "events \<noteq> []"
  shows "\<exists>nums args. BulkInsert E ctxErr events = w_call (w_exec E ctxErr (insert_text nums) args)
    \<and> concat (map tuple_numbers nums) = [1 ..< 4 * length events + 1]
    \<and> length args = 4 * length events \<and> map (row_of args) nums = map Some events"
proof -
  have "concat (map tuple_numbers (bulk_nums n)) = [1 ..< 4 * n + 1]" for n
    by (induction n) (simp_all add: bulk_nums_def numeral_eq_Suc)
  with assms show ?thesis
    by (intro exI [of _ "bulk_nums (length events)"] exI [of _ "concat (map event_args events)"])
       (simp add: BulkInsert_def Let_def bulk_query bulk_args_length bulk_rows)
qed

theorem BulkInsert_statement_witness:
  "\<exists>nums args. BulkInsert demo_worker_env False [demo_event ''a'', demo_event ''b'']
       = w_call (w_exec demo_worker_env False (insert_text nums) args)
    \<and> concat (map tuple_numbers nums) = [1, 2, 3, 4, 5, 6, 7, 8]"
proof -
  have "[1 ..< 4 * length [demo_event ''a'', demo_event ''b''] + 1] = [1, 2, 3, 4, 5, 6, 7, 8]" by (simp add: upt_rec)
  moreover obtain nums args where
    "BulkInsert demo_worker_env False [demo_event ''a'', demo_event ''b'']
       = w_call (w_exec demo_worker_env False (insert_text nums) args)"
    and "concat (map tuple_numbers nums) = [1 ..< 4 * length [demo_event ''a'', demo_event ''b''] + 1]"
    using BulkInsert_statement [of "[demo_event ''a'', demo_event ''b'']" demo_worker_env False] by blast
  ultimately show ?thesis by (intro exI conjI) (assumption, simp only:)
qed

text \<open>
  C36: When the last delivery of a batch is malformed, its tag is settled twice: first rejected, then
  used to acknowledge the batch. If the insert succeeds, the second settlement closes the channel, and
  the well-formed deliveries of the batch are requeued although their events are in the table, to be
  inserted again.
\<close>

theorem flush_malformed_last_duplicates:
  assumes "exec_law E tbl" and "br_open (w_broker w)" and "br_unacked (w_broker w) = ds"
    and "sorted_wrt (<) (map d_tag ds)" and "ds \<noteq> []" and "malformed E (last ds)" and "decoded E ds \<noteq> []"
  shows "wp (flush E ctxErr ds)
    (\<lambda>err w'. err = None \<longrightarrow> \<not> br_open (w_broker w')
       \<and> (\<forall>d e. d \<in> set ds \<and> w_decode E (d_body d) = Some e \<longrightarrow>
            d \<in> set (br_requeued (w_broker w')) \<and> stored e \<in> set (tbl (w_db w')))) w"
proof -
  let ?b = "after_nacks E ds (w_broker w)"
  have dist: "distinct (map d_tag ds)" using assms(4) by (simp only: strict_sorted_iff)
  then have dec: "flush_decode E ds [] w = (Ret (decoded E ds), w\<lparr>w_broker := ?b\<rparr>)"
    using assms(2,3) by (simp add: flush_decode_run nack_batch)
  have "d_tag (last ds) \<notin> d_tag ` set (filter (\<lambda>d. \<not> malformed E d) ds)"
  proof
    assume "d_tag (last ds) \<in> d_tag ` set (filter (\<lambda>d. \<not> malformed E d) ds)"
    then obtain d where "d \<in> set ds" "\<not> malformed E d" "d_tag d = d_tag (last ds)" by auto
    with dist assms(5) have "d = last ds" by (auto simp: distinct_map inj_on_def)
    with \<open>\<not> malformed E d\<close> assms(6) show False by simp
  qed
  then have settled: "settle (Ack (d_tag (last ds)) True) ?b = close_channel ?b"
    and un: "br_unacked ?b = filter (\<lambda>d. \<not> malformed E d) ds"
    using assms(2) by (simp_all add: settle_def after_nacks_def)
  have "wp (BulkInsert E ctxErr (decoded E ds)) (\<lambda>err. wp (case err of
       Some e \<Rightarrow> go_ret (Some (ErrFatal e))
     | None \<Rightarrow> go_then (w_settle (Ack (d_tag (last ds)) True)) (go_ret None))
     (\<lambda>err w'. err = None \<longrightarrow> \<not> br_open (w_broker w')
       \<and> (\<forall>d e. d \<in> set ds \<and> w_decode E (d_body d) = Some e \<longrightarrow>
            d \<in> set (br_requeued (w_broker w')) \<and> stored e \<in> set (tbl (w_db w'))))) (w\<lparr>w_broker := ?b\<rparr>)"
  proof (rule wp_mono [OF BulkInsert_wp [OF assms(1,7)]], goal_cases)
    case (1 err w')
    have "stored e \<in> stored ` set (decoded E ds)" if "d \<in> set ds" "w_decode E (d_body d) = Some e" for d e
      using that by (intro imageI) (auto simp: decoded_set)
    with 1 show ?case
      by (cases err) (auto simp: wp_simps settled close_channel_def un)
  qed
  with assms(7) show ?thesis unfolding flush_def
    by (simp add: wp_bind wp_eval [of "flush_decode E ds []", OF dec])
qed

theorem flush_malformed_last_duplicates_witness:
  "wp (flush demo_worker_env False [demo_delivery 1 ''a'', demo_delivery 2 ''bad''])
    (\<lambda>err w'. err = None \<and> \<not> br_open (w_broker w') \<and> demo_delivery 1 ''a'' \<in> set (br_requeued (w_broker w'))
       \<and> stored (demo_event ''a'') \<in> set (w_db w'))
    \<lparr>w_db = [], w_broker = fresh_broker\<lparr>br_unacked := [demo_delivery 1 ''a'', demo_delivery 2 ''bad'']\<rparr>\<rparr>"
proof -
  let ?ds = "[demo_delivery 1 ''a'', demo_delivery 2 ''bad'']"
  let ?w = "\<lparr>w_db = [], w_broker = fresh_broker\<lparr>br_unacked := ?ds\<rparr>\<rparr>"
  have dec: "w_decode demo_worker_env (d_body (demo_delivery 1 ''a'')) = Some (demo_event ''a'')"
    by (simp add: demo_worker_env_def demo_delivery_def)
  have ok: "wp (flush demo_worker_env False ?ds) (\<lambda>err w'. err = None) ?w"
    by (simp add: flush_def BulkInsert_def Let_def demo_worker_env_def demo_delivery_def demo_event_def wp_simps
      event_args_def bulk_query [where n = 1, simplified])
  have "wp (flush demo_worker_env False ?ds) (\<lambda>err w'. err = None \<longrightarrow> \<not> br_open (w_broker w')
       \<and> (\<forall>d e. d \<in> set ?ds \<and> w_decode demo_worker_env (d_body d) = Some e \<longrightarrow>
            d \<in> set (br_requeued (w_broker w')) \<and> stored e \<in> set (w_db w'))) ?w"
    by (rule flush_malformed_last_duplicates [OF demo_exec_law])
       (auto simp: fresh_broker_def demo_delivery_def demo_worker_env_def map_filter_simps)
  from wp_conj [OF ok this] show ?thesis
    by (rule wp_mono) (use dec in \<open>metis list.set_intros(1)\<close>)
qed

text \<open>A flush with a cancelled context stores nothing and fails.\<close>

lemma cancelled_flush_fails:
  assumes "exec_law E tbl" and "decoded E batch \<noteq> []"
  shows "wp (flush E True batch) (\<lambda>err w'. \<exists>e. err = Some (ErrFatal e) \<and> tbl (w_db w') = tbl (w_db w)) w"
proof -
  let ?w = "w\<lparr>w_broker := nack_all (filter (malformed E) batch) (w_broker w)\<rparr>"
  have dec: "flush_decode E batch [] w = (Ret (decoded E batch), ?w)" by (simp add: flush_decode_run)
  have "wp (BulkInsert E True (decoded E batch)) (\<lambda>err w'. \<exists>e. err = Some e \<and> tbl (w_db w') = tbl (w_db w)) ?w"
    by (rule wp_mono [OF BulkInsert_wp [OF assms]]) (auto split: if_splits)
  then show ?thesis
    using assms(2) unfolding flush_def wp_bind wp_eval [of "flush_decode E batch []", OF dec]
    by (simp add: wp_bind) (erule wp_mono, auto simp: wp_simps)
qed

interpretation worker_backoff: doubling_backoff worker_initialBackoff worker_maxBackoff worker_next_backoff
  by unfold_locales (simp_all add: worker_initialBackoff_def worker_next_backoff_def Second_def)

lemma worker_backoff_eq: "worker_next_backoff = next_backoff" "worker_initialBackoff = initialBackoff"
  by (simp_all add: fun_eq_iff worker_next_backoff_def next_backoff_def worker_maxBackoff_def maxBackoff_def
      worker_initialBackoff_def initialBackoff_def)

lemma dialWithRetry_failures:
  "dialWithRetry b (replicate n (DialFailed False) @ DialOk c # rest) = Inr (map (\<lambda>k. (worker_next_backoff ^^ k) b) [0 ..< n], c)"
proof (induction n arbitrary: b)
  case (Suc n)
  have "map (\<lambda>k. (worker_next_backoff ^^ k) b) [0 ..< Suc n]
      = b # map (\<lambda>k. (worker_next_backoff ^^ k) (worker_next_backoff b)) [0 ..< n]"
    by (simp add: upt_conv_Cons map_Suc_upt [symmetric] comp_def funpow_swap1 del: upt_Suc)
  with Suc show ?case by simp
qed simp

text \<open>
  C30: The worker's dial loop returns the first connection it gets, after any number of failures,
  having waited 1, 2, 4, 8, 16 and from then on 32 seconds between the attempts.
\<close>

theorem dialWithRetry_connects:
  "dialWithRetry worker_initialBackoff (replicate n (DialFailed False) @ DialOk c # rest)
     = Inr (map (\<lambda>k. (if k \<le> 5 then 2 ^ k else 32) * Second) [0 ..< n], c)"
  by (simp add: dialWithRetry_failures worker_backoff_eq backoff_value del: upt_Suc)

text \<open>
  The topology is declared in dependency order and up to the first refusal: the dead-letter queue
  before the queue that refers to it, the binding last; and a successful set-up declared everything.
\<close>

theorem Setup_declares:
  assumes "Setup channelErr broker = (sent, err)"
  shows "\<exists>rest. topology = sent @ rest \<and> (err = None \<longrightarrow> rest = [])
    \<and> (channelErr = None \<longrightarrow> err = None \<longrightarrow> (\<forall>op. op \<in> set topology \<longrightarrow> broker op = None))
    \<and> (\<forall>args. QueueDeclare queueName True args \<in> set sent \<longrightarrow> QueueDeclare dlqName True [] \<in> set sent)"
proof -
  have all: "\<exists>rest. ops = sent @ rest \<and> (err = None \<longrightarrow> rest = [] \<and> (\<forall>op \<in> set ops. broker op = None))"
    if "declare_all broker ops = (sent, err)" for ops sent err
    using that by (induction ops arbitrary: sent) (auto split: option.splits prod.splits)
  show ?thesis
    using assms unfolding Setup_def
    by (cases channelErr) (auto simp: topology_def queueName_def dlqName_def split: option.splits dest!: all)
qed

theorem Setup_declares_witness:
  "Setup None (\<lambda>op. if op = QueueBind queueName worker_routingKey worker_exchangeName then Some ''refused'' else None) = (topology, Some ''refused'')
   \<and> QueueDeclare dlqName True [] \<in> set topology"
proof -
  let ?broker = "\<lambda>op. if op = QueueBind queueName worker_routingKey worker_exchangeName then Some ''refused'' else None"
  have s: "Setup None ?broker = (topology, Some ''refused'')" by (simp add: Setup_def topology_def)
  moreover have "\<exists>args. QueueDeclare queueName True args \<in> set topology" by (auto simp: topology_def)
  ultimately show ?thesis using Setup_declares [OF s] by blast
qed

end
