(* ===== verification/Worker_Process.thy ===== *)
theory Worker_Process
  imports Analytics_Worker Config
begin

text \<open>
  The worker process, \<^verbatim>\<open>cmd/worker/main.go\<close>: its settings from the environment, the
  connection to the database, and the loop that dials the broker, declares the topology and runs a consumer, again and again, until it
  is told to stop or the database fails. A turn of the loop is driven by what the broker answers and
  by what the consumer's select statement picks. The process keeps the database and the broker's
  view of every session it has had; closing a connection requeues what is unsettled on it.
\<close>

section \<open>Definitions\<close>

subsection \<open>Settings\<close>

text \<open>Unlike the gateway's, the worker's \<^verbatim>\<open>getEnv\<close> treats an empty value as unset.\<close>

definition worker_getEnv :: "environ \<Rightarrow> string \<Rightarrow> string \<Rightarrow> string" where
  "worker_getEnv env key def_val = (let v = Getenv env key in if v \<noteq> '''' then v else def_val)"

text \<open>\<open>Inl key\<close>: the process ends because a required variable is not set.\<close>

definition mustEnv :: "environ \<Rightarrow> string \<Rightarrow> string + string" where
  "mustEnv env key = (let v = Getenv env key in if v = '''' then Inl key else Inr v)"

definition worker_getEnvInt :: "environ \<Rightarrow> string \<Rightarrow> int \<Rightarrow> int" where
  "worker_getEnvInt = env_or Sscanf_d"

definition worker_getEnvDuration :: "environ \<Rightarrow> string \<Rightarrow> int \<Rightarrow> int" where
  "worker_getEnvDuration = env_or ParseDuration"

record worker_settings =
  ws_amqpURL :: string
  ws_dbURL :: string
  ws_batchSize :: int
  ws_flushInterval :: int

definition sum_bind :: "'e + 'a \<Rightarrow> ('a \<Rightarrow> 'e + 'b) \<Rightarrow> 'e + 'b" where
  "sum_bind m f = (case m of Inl e \<Rightarrow> Inl e | Inr x \<Rightarrow> f x)"

definition worker_load :: "environ \<Rightarrow> string + worker_settings" where
  "worker_load env =
     sum_bind (mustEnv env ''AMQP_URL'') (\<lambda>amqpURL.
     sum_bind (mustEnv env ''DB_USER'') (\<lambda>user.
     sum_bind (mustEnv env ''DB_PASSWORD'') (\<lambda>password.
       let host = worker_getEnv env ''DB_HOST'' ''localhost''; port = worker_getEnv env ''DB_PORT'' ''5432'' in
     sum_bind (mustEnv env ''DB_NAME'') (\<lambda>name.
       Inr \<lparr>ws_amqpURL = amqpURL,
         ws_dbURL = ''postgres://'' @ user @ '':'' @ password @ ''@'' @ host @ '':'' @ port @ ''/'' @ name @ ''?sslmode=''
           @ worker_getEnv env ''DB_SSLMODE'' ''disable'',
         ws_batchSize = worker_getEnvInt env ''BATCH_SIZE'' 100,
         ws_flushInterval = worker_getEnvDuration env ''FLUSH_INTERVAL'' (5 * Second)\<rparr>))))"

subsection \<open>The reconnect loop\<close>

text \<open>
  What happens in one turn of the loop: whether the context is cancelled at its head, the dial
  attempts, the answers to the set-up, the answers to the consumer's channel, the events of its loop,
  and whether the context is cancelled when it has returned.
\<close>

record turn =
  tu_ctx_head :: bool
  tu_attempts :: "dial_attempt list"
  tu_setup_channel :: "string option"
  tu_declare :: "topology_op \<Rightarrow> string option"
  tu_channel :: "string option"
  tu_qos :: "int \<Rightarrow> string option"
  tu_consume :: "string option"
  tu_events :: "run_event list"
  tu_ctx_after :: bool

record 'x process =
  pr_db :: 'x
  pr_sessions :: "broker list"

text \<open>A consumer on a new connection, which is closed when it returns (but not while it runs).\<close>

definition run_session :: "'x worker_env \<Rightarrow> consumer \<Rightarrow> turn \<Rightarrow> ('x process, run_result) go" where
  "run_session E c t = (\<lambda>p.
     case Run E c (tu_channel t) (tu_qos t) (tu_consume t) (tu_events t)
            \<lparr>w_db = pr_db p, w_broker = fresh_broker\<rparr> of
       (Panic msg, w) \<Rightarrow> (Panic msg, p\<lparr>pr_db := w_db w, pr_sessions := pr_sessions p @ [close_channel (w_broker w)]\<rparr>)
     | (Ret res, w) \<Rightarrow>
         (Ret res, p\<lparr>pr_db := w_db w,
            pr_sessions := pr_sessions p @ [case res of Running _ \<Rightarrow> w_broker w | RunReturned _ \<Rightarrow> close_channel (w_broker w)]\<rparr>))"

datatype exit_status = ExitClean | ExitFatal

text \<open>\<open>None\<close>: the process is still running when the turns are used up.\<close>

fun worker_main :: "'x worker_env \<Rightarrow> worker_settings \<Rightarrow> turn list \<Rightarrow> ('x process, exit_status option) go" where
  "worker_main E ws [] = go_ret None"
| "worker_main E ws (t # ts) =
     (if tu_ctx_head t then go_ret (Some ExitClean)
      else
        case dialWithRetry worker_initialBackoff (tu_attempts t) of
          Inl (waits, ctx_done) \<Rightarrow> go_ret (if ctx_done then Some ExitClean else None)
        | Inr (waits, c) \<Rightarrow>
            (case Setup (tu_setup_channel t) (tu_declare t) of
               (sent, Some e) \<Rightarrow> worker_main E ws ts
             | (sent, None) \<Rightarrow>
                 go_bind (run_session E (consumer_New c (ws_batchSize ws) (ws_flushInterval ws)) t) (\<lambda>res.
                   case res of
                     Running batch \<Rightarrow> go_ret None
                   | RunReturned (Some (ErrFatal e)) \<Rightarrow> go_ret (Some ExitFatal)
                   | RunReturned (Some (AmqpErr e)) \<Rightarrow> worker_main E ws ts
                   | RunReturned None \<Rightarrow> if tu_ctx_after t then go_ret (Some ExitClean) else worker_main E ws ts)))"

subsection \<open>Start-up\<close>

text \<open>
  What ends the process before its loop: a required variable that is not set, a connection string the
  pool refuses, a database that does not answer. \<open>new_pool\<close> and \<open>ping\<close> are the pool's
  answers (\<open>None\<close>: no error).
\<close>

datatype worker_fatal =
    RequiredVariable string
  | PoolRefused string
  | PingFailed string

definition worker_start :: "environ \<Rightarrow> (string \<Rightarrow> string option) \<Rightarrow> string option \<Rightarrow> worker_fatal + worker_settings" where
  "worker_start env new_pool ping =
     (case worker_load env of
        Inl key \<Rightarrow> Inl (RequiredVariable key)
      | Inr ws \<Rightarrow>
          (case new_pool (ws_dbURL ws) of
             Some e \<Rightarrow> Inl (PoolRefused e)
           | None \<Rightarrow> (case ping of Some e \<Rightarrow> Inl (PingFailed e) | None \<Rightarrow> Inr ws)))"

definition worker_process ::
  "'x worker_env \<Rightarrow> environ \<Rightarrow> (string \<Rightarrow> string option) \<Rightarrow> string option \<Rightarrow> turn list
   \<Rightarrow> ('x process, worker_fatal + exit_status option) go" where
  "worker_process E env new_pool ping ts =
     (case worker_start env new_pool ping of
        Inl f \<Rightarrow> go_ret (Inl f)
      | Inr ws \<Rightarrow> go_bind (worker_main E ws ts) (\<lambda>res. go_ret (Inr res)))"

section \<open>Lemmas\<close>

text \<open>The table only grows.\<close>

lemma flush_grows:
  assumes "exec_law E tbl"
  shows "wp (flush E ctxErr ds) (\<lambda>err w'. \<exists>new. tbl (w_db w') = tbl (w_db w) @ new) w"
proof (cases "decoded E ds = []")
  case True
  then show ?thesis by (simp add: flush_def wp_def go_simps flush_decode_run)
next
  case False
  let ?w = "w\<lparr>w_broker := nack_all (filter (malformed E) ds) (w_broker w)\<rparr>"
  have dec: "flush_decode E ds [] w = (Ret (decoded E ds), ?w)" by (simp add: flush_decode_run)
  have "wp (BulkInsert E ctxErr (decoded E ds)) (\<lambda>err. wp (case err of
       Some e \<Rightarrow> go_ret (Some (ErrFatal e))
     | None \<Rightarrow> go_then (w_settle (Ack (d_tag (last ds)) True)) (go_ret None))
     (\<lambda>err w'. \<exists>new. tbl (w_db w') = tbl (w_db w) @ new)) ?w"
    by (rule wp_mono [OF BulkInsert_wp [OF assms False]]) (auto simp: wp_simps split: option.splits if_splits)
  with False show ?thesis
    unfolding flush_def by (simp add: wp_bind wp_eval [of "flush_decode E ds []", OF dec])
qed

text \<open>After a successful flush every event of the batch is in the table.\<close>

lemma flush_stores:
  assumes "exec_law E tbl" and "d \<in> set ds" and "w_decode E (d_body d) = Some e"
  shows "wp (flush E ctxErr ds) (\<lambda>err w'. err = None \<longrightarrow> stored e \<in> set (tbl (w_db w'))) w"
proof -
  have e: "e \<in> set (decoded E ds)" using assms(2,3) by (auto simp: decoded_set)
  then have "decoded E ds \<noteq> []" by (metis empty_iff empty_set)
  let ?w = "w\<lparr>w_broker := nack_all (filter (malformed E) ds) (w_broker w)\<rparr>"
  have dec: "flush_decode E ds [] w = (Ret (decoded E ds), ?w)" by (simp add: flush_decode_run)
  have "wp (BulkInsert E ctxErr (decoded E ds)) (\<lambda>err. wp (case err of
       Some e \<Rightarrow> go_ret (Some (ErrFatal e))
     | None \<Rightarrow> go_then (w_settle (Ack (d_tag (last ds)) True)) (go_ret None))
     (\<lambda>err w'. err = None \<longrightarrow> stored e \<in> set (tbl (w_db w')))) ?w"
    using e by (intro wp_mono [OF BulkInsert_wp [OF assms(1) \<open>decoded E ds \<noteq> []\<close>]])
      (auto simp: wp_simps split: option.splits)
  with \<open>decoded E ds \<noteq> []\<close> show ?thesis
    unfolding flush_def by (simp add: wp_bind wp_eval [of "flush_decode E ds []", OF dec])
qed

lemma run_loop_grows:
  assumes "exec_law E tbl"
  shows "wp (run_loop E batchSize batch evs) (\<lambda>res w'. \<exists>new. tbl (w_db w') = tbl (w_db w) @ new) w"
proof (induction evs arbitrary: batch w)
  case Nil
  then show ?case by (simp add: wp_simps)
next
  case (Cons ev evs)
  have continue: "wp (flush E c ds) (\<lambda>err. wp (case err of Some e \<Rightarrow> go_ret (RunReturned (Some e))
       | None \<Rightarrow> run_loop E batchSize [] evs) (\<lambda>res w'. \<exists>new. tbl (w_db w') = tbl (w_db v) @ new)) v" for c ds v
  proof (rule wp_mono [OF flush_grows [OF assms]], goal_cases)
    case (1 err w2)
    then show ?case
      by (cases err) (auto simp: wp_simps intro: wp_mono [OF Cons])
  qed
  show ?case
  proof (cases ev)
    case CtxDone
    then show ?thesis using flush_grows [OF assms, of True batch w] by (simp add: wp_simps)
  next
    case (Delivered d c)
    let ?w = "w\<lparr>w_broker := deliver d (w_broker w)\<rparr>"
    show ?thesis using continue [of c "batch @ [d]" ?w] Cons [of "batch @ [d]" ?w] Delivered by (simp add: wp_simps Let_def)
  next
    case DeliveriesClosed
    then show ?thesis by (simp add: wp_simps)
  next
    case (Tick c)
    then show ?thesis using continue [of c batch w] Cons [of batch w] by (cases "batch = []") (simp_all add: wp_simps)
  qed
qed

lemma close_channel_no_loss: "no_loss E rws b \<Longrightarrow> no_loss E rws (close_channel b)"
  by (auto simp: no_loss_def close_channel_def)

lemma fresh_inv: "run_inv E tbl [] \<lparr>w_db = x, w_broker = fresh_broker\<rparr>"
  by (simp add: run_inv_def no_loss_def fresh_broker_def)

text \<open>
  The invariant of the process: no session has lost anything, and a session that is over has nothing
  unsettled.
\<close>

definition sessions_ok :: "'x worker_env \<Rightarrow> click_event list \<Rightarrow> broker list \<Rightarrow> bool" where
  "sessions_ok E rws bs = list_all (no_loss E rws) bs"

definition settled :: "broker list \<Rightarrow> bool" where
  "settled bs = list_all (\<lambda>b. br_unacked b = []) bs"

definition turn_ok :: "turn \<Rightarrow> bool" where
  "turn_ok t = sorted_wrt (<) (map d_tag (deliveries_of (tu_events t)))"

lemma sessions_ok_more: "sessions_ok E rws bs \<Longrightarrow> sessions_ok E (rws @ new) bs"
  by (auto simp: sessions_ok_def list_all_iff intro: no_loss_more)

lemma Run_wp:
  assumes "exec_law E tbl" and "turn_ok t" and "0 < cs_flushInterval c"
  shows "wp (Run E c (tu_channel t) (tu_qos t) (tu_consume t) (tu_events t))
    (\<lambda>res w'. no_loss E (tbl (w_db w')) (w_broker w') \<and> (\<exists>new. tbl (w_db w') = tbl x @ new))
    \<lparr>w_db = x, w_broker = fresh_broker\<rparr>"
proof -
  let ?w = "\<lparr>w_db = x, w_broker = fresh_broker\<rparr>"
  have "wp (run_loop E (cs_batchSize c) [] (tu_events t)) (run_post E tbl (cs_batchSize c)) ?w"
    using assms by (intro run_loop_wp fresh_inv) (simp_all add: turn_ok_def)
  from wp_conj [OF this run_loop_grows [OF assms(1)]]
  have "wp (run_loop E (cs_batchSize c) [] (tu_events t))
      (\<lambda>res w'. no_loss E (tbl (w_db w')) (w_broker w') \<and> (\<exists>new. tbl (w_db w') = tbl x @ new)) ?w"
    by (rule wp_mono) (simp add: run_post_def)
  moreover have "no_loss E (tbl x) fresh_broker" using fresh_inv [of E tbl x] by (simp add: run_inv_def)
  ultimately show ?thesis using assms(3) by (auto simp: Run_def wp_simps split: option.splits)
qed

lemma run_session_wp:
  assumes "exec_law E tbl" and "turn_ok t" and "0 < cs_flushInterval c"
    and "sessions_ok E (tbl (pr_db p)) (pr_sessions p)" and "settled (pr_sessions p)"
  shows "wp (run_session E c t)
    (\<lambda>res p'. sessions_ok E (tbl (pr_db p')) (pr_sessions p') \<and> ((\<forall>batch. res \<noteq> Running batch) \<longrightarrow> settled (pr_sessions p'))) p"
proof -
  obtain res w' where run: "Run E c (tu_channel t) (tu_qos t) (tu_consume t) (tu_events t)
       \<lparr>w_db = pr_db p, w_broker = fresh_broker\<rparr> = (Ret res, w')"
    and nl: "no_loss E (tbl (w_db w')) (w_broker w')" and new: "\<exists>new. tbl (w_db w') = tbl (pr_db p) @ new"
    using wp_returns [OF Run_wp [OF assms(1-3), of "pr_db p"]] by blast
  have "sessions_ok E (tbl (w_db w')) (pr_sessions p)" using new sessions_ok_more [OF assms(4)] by auto
  then show ?thesis
    using nl assms(5) by (auto simp: run_session_def wp_def run sessions_ok_def settled_def close_channel_no_loss
      split: run_result.splits) (simp_all add: close_channel_def)
qed

lemma worker_main_wp:
  assumes "exec_law E tbl" and "list_all turn_ok ts" and "0 < ws_flushInterval ws"
    and "sessions_ok E (tbl (pr_db p)) (pr_sessions p)" and "settled (pr_sessions p)"
  shows "wp (worker_main E ws ts)
    (\<lambda>res p'. sessions_ok E (tbl (pr_db p')) (pr_sessions p') \<and> (res \<noteq> None \<longrightarrow> settled (pr_sessions p'))) p"
  using assms(2,4,5)
proof (induction ts arbitrary: p)
  case Nil
  then show ?case by (simp add: wp_simps)
next
  case (Cons t ts)
  let ?Q = "\<lambda>res p'. sessions_ok E (tbl (pr_db p')) (pr_sessions p') \<and> (res \<noteq> None \<longrightarrow> settled (pr_sessions p'))"
  have session: "wp (run_session E (consumer_New c (ws_batchSize ws) (ws_flushInterval ws)) t) (\<lambda>res. wp (case res of
         Running batch \<Rightarrow> go_ret None
       | RunReturned (Some (ErrFatal e)) \<Rightarrow> go_ret (Some ExitFatal)
       | RunReturned (Some (AmqpErr e)) \<Rightarrow> worker_main E ws ts
       | RunReturned None \<Rightarrow> if tu_ctx_after t then go_ret (Some ExitClean) else worker_main E ws ts) ?Q) p" for c
    using Cons assms(3) by (intro wp_mono [OF run_session_wp [OF assms(1)]])
      (auto simp: wp_simps consumer_New_def split: run_result.splits option.splits worker_err.splits)
  consider (stop) "tu_ctx_head t" | (dial) waits done_flag where "\<not> tu_ctx_head t" "dialWithRetry worker_initialBackoff (tu_attempts t) = Inl (waits, done_flag)"
    | (refused) waits c sent e where "\<not> tu_ctx_head t" "dialWithRetry worker_initialBackoff (tu_attempts t) = Inr (waits, c)"
        "Setup (tu_setup_channel t) (tu_declare t) = (sent, Some e)"
    | (runs) waits c sent where "\<not> tu_ctx_head t" "dialWithRetry worker_initialBackoff (tu_attempts t) = Inr (waits, c)"
        "Setup (tu_setup_channel t) (tu_declare t) = (sent, None)"
    by (metis old.sum.exhaust option.exhaust surj_pair)
  then show ?case
  proof cases
    case runs
    then show ?thesis
      by (simp only: worker_main.simps if_False sum.case prod.case option.case wp_bind session)
  qed (use Cons in \<open>simp_all add: wp_simps\<close>)
qed

lemma run_loop_append:
  "run_loop E batchSize batch (evs @ evs') =
     go_bind (run_loop E batchSize batch evs)
       (\<lambda>res. case res of Running batch' \<Rightarrow> run_loop E batchSize batch' evs' | RunReturned err \<Rightarrow> go_ret (RunReturned err))"
proof (induction evs arbitrary: batch)
  case Nil
  then show ?case by (simp add: go_simps)
next
  case (Cons ev evs)
  then show ?case
    by (cases ev) (auto simp: fun_eq_iff go_simps Let_def split: prod.splits outcome.splits option.splits)
qed

section \<open>Properties\<close>

text \<open>
  C6: The worker process loses nothing across reconnections: whatever its environment, and whatever
  the database, the broker and its consumers' select statements do, after any number of turns every
  delivery any session received is acknowledged with its event in the table, or dead-lettered and
  malformed, or still unsettled, or back in the queue; and once the process has ended nothing is
  unsettled. The process ends before its loop exactly when a required variable is unset or the
  database refuses it, and then it has received nothing. It never panics when the flush interval is
  positive.
\<close>

theorem worker_process_loses_nothing:
  assumes "exec_law E tbl" and "list_all turn_ok ts" and "pr_sessions p = []"
    and "\<And>ws. worker_load env = Inr ws \<Longrightarrow> 0 < ws_flushInterval ws"
  shows "wp (worker_process E env new_pool ping ts)
    (\<lambda>res p'. (\<forall>b d. b \<in> set (pr_sessions p') \<and> d \<in> set (br_received b) \<longrightarrow>
         d \<in> set (br_acked b) \<and> (\<exists>e. w_decode E (d_body d) = Some e \<and> stored e \<in> set (tbl (pr_db p')))
         \<or> d \<in> set (br_dead b) \<and> w_decode E (d_body d) = None
         \<or> d \<in> set (br_requeued b)
         \<or> d \<in> set (br_unacked b) \<and> res = Inr None)
       \<and> (isl res \<longleftrightarrow> isl (worker_load env) \<or> new_pool (ws_dbURL (projr (worker_load env))) \<noteq> None \<or> ping \<noteq> None)
       \<and> (isl res \<longrightarrow> pr_sessions p' = [])) p"
proof (cases "worker_start env new_pool ping")
  case (Inl f)
  then show ?thesis
    using assms(3) by (auto simp: worker_process_def wp_simps worker_start_def split: sum.splits option.splits)
next
  case (Inr ws)
  then have load: "worker_load env = Inr ws" "new_pool (ws_dbURL ws) = None" "ping = None"
    by (auto simp: worker_start_def split: sum.splits option.splits)
  have "sessions_ok E (tbl (pr_db p)) (pr_sessions p)" "settled (pr_sessions p)"
    using assms(3) by (simp_all add: sessions_ok_def settled_def)
  note main = worker_main_wp [OF assms(1,2) assms(4) [OF load(1)] this]
  show ?thesis
    unfolding worker_process_def Inr sum.case wp_bind
    by (rule wp_mono [OF main]) (fastforce simp: wp_simps load sessions_ok_def settled_def list_all_iff no_loss_def)
qed

definition demo_settings :: worker_settings where
  "demo_settings = \<lparr>ws_amqpURL = ''amqp://b'', ws_dbURL = '''', ws_batchSize = 2, ws_flushInterval = 5 * Second\<rparr>"

text \<open>A turn in which the broker agrees to everything.\<close>

definition good_turn :: "run_event list \<Rightarrow> turn" where
  "good_turn evs =
     \<lparr>tu_ctx_head = False, tu_attempts = [DialFailed False, DialOk 1], tu_setup_channel = None, tu_declare = (\<lambda>op. None),
      tu_channel = None, tu_qos = (\<lambda>n. None), tu_consume = None, tu_events = evs, tu_ctx_after = False\<rparr>"

definition demo_environ :: environ where
  "demo_environ =
     [''AMQP_URL'' \<mapsto> ''amqp://b'', ''DB_USER'' \<mapsto> ''u'', ''DB_PASSWORD'' \<mapsto> ''p'', ''DB_NAME'' \<mapsto> ''d'', ''BATCH_SIZE'' \<mapsto> ''2'']"

lemma demo_load:
  "worker_load demo_environ = Inr ws \<Longrightarrow> ws_flushInterval ws = 5 * Second"
  by (auto simp: worker_load_def demo_environ_def mustEnv_def Getenv_def sum_bind_def Let_def worker_getEnvDuration_def env_or_def)

theorem worker_process_loses_nothing_witness:
  "wp (worker_process demo_worker_env demo_environ (\<lambda>url. None) None
        [good_turn [Delivered (demo_delivery 1 ''a'') False, DeliveriesClosed], good_turn [Delivered (demo_delivery 1 ''a'') False, Tick False]])
    (\<lambda>res p'. \<not> isl res \<and> (\<forall>b d. b \<in> set (pr_sessions p') \<and> d \<in> set (br_received b) \<longrightarrow>
       d \<in> set (br_acked b) \<and> (\<exists>e. w_decode demo_worker_env (d_body d) = Some e \<and> stored e \<in> set (pr_db p'))
       \<or> d \<in> set (br_dead b) \<and> w_decode demo_worker_env (d_body d) = None
       \<or> d \<in> set (br_requeued b)
       \<or> d \<in> set (br_unacked b) \<and> res = Inr None)) \<lparr>pr_db = [], pr_sessions = []\<rparr>"
proof -
  have "\<not> isl (worker_load demo_environ)"
    by (simp add: worker_load_def demo_environ_def mustEnv_def Getenv_def sum_bind_def Let_def)
  then show ?thesis
    by (intro wp_mono [OF worker_process_loses_nothing [OF demo_exec_law]])
       (simp_all add: turn_ok_def good_turn_def demo_load Second_def)
qed



end
